theory Spec2Isabelle
  imports Main
begin

section \<open>Python values used by Smart\_Media\_Sampler.py\<close>

text \<open>
  The program is a single Python module, \<^verbatim>\<open>Smart_Media_Sampler.py\<close>, whose class
  \<^verbatim>\<open>MediaFileSelector\<close> scans folders for media files, filters and selects them, copies
  the selection and writes a log that an undo operation reads. The model below follows the
  methods of that class one by one and keeps their names.

  Strings are lists of characters and are taken to be ASCII. Exceptions are values of
  \<open>py_exc\<close>; a function that can raise returns \<open>py_exc + 'a\<close> with \<open>Inl\<close> for the
  raised exception.
\<close>

datatype py_exc =
    ValueError | OverflowError | ZeroDivisionError | KeyError
  | FileExistsError | FileNotFoundError | NotADirectoryError | IsADirectoryError
  | SameFileError

definition exc_bind :: "py_exc + 'a \<Rightarrow> ('a \<Rightarrow> py_exc + 'b) \<Rightarrow> py_exc + 'b" where
  "exc_bind r f = (case r of Inl e \<Rightarrow> Inl e | Inr v \<Rightarrow> f v)"

subsection \<open>str.upper, str.lower, str.strip, str.endswith\<close>

definition upper_char :: "char \<Rightarrow> char" where
  "upper_char c =
     (case map_of (zip ''abcdefghijklmnopqrstuvwxyz'' ''ABCDEFGHIJKLMNOPQRSTUVWXYZ'') c of
        Some u \<Rightarrow> u
      | None \<Rightarrow> c)"

definition lower_char :: "char \<Rightarrow> char" where
  "lower_char c =
     (case map_of (zip ''ABCDEFGHIJKLMNOPQRSTUVWXYZ'' ''abcdefghijklmnopqrstuvwxyz'') c of
        Some u \<Rightarrow> u
      | None \<Rightarrow> c)"

definition upper :: "string \<Rightarrow> string" where
  "upper s = map upper_char s"

definition lower :: "string \<Rightarrow> string" where
  "lower s = map lower_char s"

text \<open>The ASCII characters for which \<^verbatim>\<open>str.isspace\<close> holds: TAB, LF, VT, FF, CR,
  FS, GS, RS, US and the blank.\<close>

definition is_space :: "char \<Rightarrow> bool" where
  "is_space c =
     (c \<in> set [CHR 0x09, CHR 0x0A, CHR 0x0B, CHR 0x0C, CHR 0x0D,
                CHR 0x1C, CHR 0x1D, CHR 0x1E, CHR 0x1F, CHR 0x20])"

definition strip :: "string \<Rightarrow> string" where
  "strip s = rev (dropWhile is_space (rev (dropWhile is_space s)))"

text \<open>\<^verbatim>\<open>int\<close> and \<^verbatim>\<open>float\<close> skip fewer characters around the numeral of an ASCII
  string than \<^verbatim>\<open>str.strip\<close> removes: TAB, LF, VT, FF, CR and the blank only.\<close>

definition is_c_space :: "char \<Rightarrow> bool" where
  "is_c_space c = (c \<in> set [CHR 0x09, CHR 0x0A, CHR 0x0B, CHR 0x0C, CHR 0x0D, CHR 0x20])"

definition strip_c :: "string \<Rightarrow> string" where
  "strip_c s = rev (dropWhile is_c_space (rev (dropWhile is_c_space s)))"

definition endswith :: "string \<Rightarrow> string \<Rightarrow> bool" where
  "endswith s suf = (length suf \<le> length s \<and> drop (length s - length suf) s = suf)"

subsection \<open>int(str) and float(str)\<close>

definition digit_val :: "char \<Rightarrow> nat option" where
  "digit_val c = map_of (zip ''0123456789'' [0, 1, 2, 3, 4, 5, 6, 7, 8, 9]) c"

definition is_digit :: "char \<Rightarrow> bool" where
  "is_digit c = (digit_val c \<noteq> None)"

text \<open>
  Both constructors accept single underscores between digits. CPython removes them in one
  pass that remembers the previous character: an underscore must follow a digit, the
  character after an underscore must be a digit, and the text must not end in one.
  \<open>None\<close> stands for the \<^verbatim>\<open>ValueError\<close>.
\<close>

fun strip_underscores :: "char option \<Rightarrow> string \<Rightarrow> string option" where
  "strip_underscores prev [] = (if prev = Some (CHR ''_'') then None else Some [])"
| "strip_underscores prev (c # cs) =
     (if c = CHR ''_'' then
        (case prev of
           Some p \<Rightarrow> if is_digit p then strip_underscores (Some c) cs else None
         | None \<Rightarrow> None)
      else if prev = Some (CHR ''_'') \<and> \<not> is_digit c then None
      else map_option ((#) c) (strip_underscores (Some c) cs))"

fun digits_val :: "nat \<Rightarrow> string \<Rightarrow> nat" where
  "digits_val acc [] = acc"
| "digits_val acc (c # cs) =
     digits_val (10 * acc + (case digit_val c of Some d \<Rightarrow> d | None \<Rightarrow> 0)) cs"

definition split_sign :: "string \<Rightarrow> bool \<times> string" where
  "split_sign s =
     (case s of
        [] \<Rightarrow> (False, s)
      | c # cs \<Rightarrow> if c = CHR ''-'' then (True, cs)
                  else if c = CHR ''+'' then (False, cs) else (False, s))"

text \<open>\<^verbatim>\<open>int(s)\<close> in base 10: C blanks around, a sign, digits. (The limit on the number
  of digits that recent interpreters apply to this conversion is not modelled.)\<close>

definition py_int :: "string \<Rightarrow> int option" where
  "py_int s0 =
     (case strip_underscores None (strip_c s0) of
        None \<Rightarrow> None
      | Some s \<Rightarrow>
          let (neg, ds) = split_sign s
          in if ds \<noteq> [] \<and> list_all is_digit ds
             then Some (if neg then - int (digits_val 0 ds) else int (digits_val 0 ds))
             else None)"

text \<open>
  A Python float is an IEEE binary64 value. \<open>Finite m e\<close> is the number \<open>m * 2 ^ e\<close>;
  \<open>round_binary64 neg n d\<close> is the binary64 value nearest to the fraction \<open>n / d\<close> (ties to
  the even significand, overflow to infinity, gradual underflow), which is what CPython's
  correctly rounded string conversion and the hardware multiplication return.
\<close>

datatype pyfloat = Finite int int | PosInf | NegInf | NaN

fun bits :: "nat \<Rightarrow> nat" where
  "bits n = (if n = 0 then 0 else Suc (bits (n div 2)))"

declare bits.simps [simp del]

definition floor_log2 :: "nat \<Rightarrow> nat \<Rightarrow> int" where
  "floor_log2 n d =
     (let k = int (bits n) - int (bits d) in
      if (if 0 \<le> k then d * 2 ^ nat k \<le> n else d \<le> n * 2 ^ nat (- k)) then k else k - 1)"

definition round_half_even :: "nat \<Rightarrow> nat \<Rightarrow> nat" where
  "round_half_even p q =
     (let f = p div q; r = p mod q in
      if 2 * r < q then f else if q < 2 * r then f + 1 else if even f then f else f + 1)"

definition round_binary64 :: "bool \<Rightarrow> nat \<Rightarrow> nat \<Rightarrow> pyfloat" where
  "round_binary64 neg n d =
     (if n = 0 then Finite 0 0
      else
        let e = max (floor_log2 n d - 52) (- 1074);
            m = (if 0 \<le> e then round_half_even n (d * 2 ^ nat e)
                 else round_half_even (n * 2 ^ nat (- e)) d)
        in if 971 < e \<or> (e = 971 \<and> 2 ^ 53 \<le> m) then (if neg then NegInf else PosInf)
           else Finite (if neg then - int m else int m) e)"

definition parse_exponent :: "string \<Rightarrow> int option" where
  "parse_exponent r =
     (case r of
        [] \<Rightarrow> Some 0
      | c # cs \<Rightarrow>
          if c = CHR ''e'' \<or> c = CHR ''E'' then
            (let (eneg, ds) = split_sign cs
             in if ds \<noteq> [] \<and> list_all is_digit ds
                then Some (if eneg then - int (digits_val 0 ds) else int (digits_val 0 ds))
                else None)
          else None)"

definition parse_decimal :: "bool \<Rightarrow> string \<Rightarrow> pyfloat option" where
  "parse_decimal neg r =
     (let ip = takeWhile is_digit r; r1 = dropWhile is_digit r;
          (fp, r2) = (case r1 of
                        [] \<Rightarrow> ([], r1)
                      | c # cs \<Rightarrow>
                          if c = CHR ''.'' then (takeWhile is_digit cs, dropWhile is_digit cs)
                          else ([], r1))
      in if ip @ fp = [] then None
         else (case parse_exponent r2 of
                 None \<Rightarrow> None
               | Some ex \<Rightarrow>
                   let m = digits_val 0 (ip @ fp); e10 = ex - int (length fp)
                   in Some (if 0 \<le> e10 then round_binary64 neg (m * 10 ^ nat e10) 1
                            else round_binary64 neg m (10 ^ nat (- e10)))))"

text \<open>\<^verbatim>\<open>float(s)\<close>: C blanks around, a sign, then \<^verbatim>\<open>inf\<close>, \<^verbatim>\<open>infinity\<close>,
  \<^verbatim>\<open>nan\<close> in any case, or a decimal numeral with an optional exponent.\<close>

definition py_float :: "string \<Rightarrow> pyfloat option" where
  "py_float s0 =
     (case strip_underscores None (strip_c s0) of
        None \<Rightarrow> None
      | Some s \<Rightarrow>
          let (neg, r) = split_sign s
          in if lower r = ''inf'' \<or> lower r = ''infinity''
             then Some (if neg then NegInf else PosInf)
             else if lower r = ''nan'' then Some NaN
             else parse_decimal neg r)"

text \<open>\<^verbatim>\<open>number * multiplier\<close> for a float and an int that binary64 holds exactly.\<close>

definition float_mul_int :: "pyfloat \<Rightarrow> int \<Rightarrow> pyfloat" where
  "float_mul_int x k =
     (case x of
        Finite m e \<Rightarrow>
          (let p = m * k; neg = (p < 0); n = nat \<bar>p\<bar>
           in if 0 \<le> e then round_binary64 neg (n * 2 ^ nat e) 1
              else round_binary64 neg n (2 ^ nat (- e)))
      | PosInf \<Rightarrow> if k = 0 then NaN else if 0 < k then PosInf else NegInf
      | NegInf \<Rightarrow> if k = 0 then NaN else if 0 < k then NegInf else PosInf
      | NaN \<Rightarrow> NaN)"

text \<open>\<^verbatim>\<open>int(x)\<close> for a float truncates towards zero; it raises
  \<^verbatim>\<open>OverflowError\<close> on an infinity and \<^verbatim>\<open>ValueError\<close> on a NaN.\<close>

definition int_of_float :: "pyfloat \<Rightarrow> py_exc + int" where
  "int_of_float x =
     (case x of
        Finite m e \<Rightarrow>
          Inr (if 0 \<le> e then m * 2 ^ nat e
               else if 0 \<le> m then m div 2 ^ nat (- e) else - ((- m) div 2 ^ nat (- e)))
      | PosInf \<Rightarrow> Inl OverflowError
      | NegInf \<Rightarrow> Inl OverflowError
      | NaN \<Rightarrow> Inl ValueError)"

section \<open>parse\_size\<close>

text \<open>
  The dictionary \<^verbatim>\<open>multipliers\<close> is iterated in insertion order, so \<^verbatim>\<open>'B'\<close> is
  tried first. Inside the loop a \<^verbatim>\<open>ValueError\<close> (from \<^verbatim>\<open>float\<close> or from
  \<^verbatim>\<open>int\<close> of a NaN) leaves the loop with \<^verbatim>\<open>break\<close>; any other exception
  propagates. \<open>parse_size_loop\<close> returns \<open>None\<close> when the loop ends without returning.
\<close>

definition multipliers :: "(string \<times> int) list" where
  "multipliers =
     [(''B'', 1), (''KB'', 1024), (''MB'', 1024 ^ 2), (''GB'', 1024 ^ 3), (''TB'', 1024 ^ 4)]"

fun parse_size_loop :: "string \<Rightarrow> (string \<times> int) list \<Rightarrow> (py_exc + int) option" where
  "parse_size_loop s [] = None"
| "parse_size_loop s ((suffix, multiplier) # rest) =
     (if endswith s suffix then
        (case py_float (take (length s - length suffix) s) of
           None \<Rightarrow> None
         | Some number \<Rightarrow>
             (case int_of_float (float_mul_int number multiplier) of
                Inl e \<Rightarrow> if e = ValueError then None else Some (Inl e)
              | Inr b \<Rightarrow> Some (Inr b)))
      else parse_size_loop s rest)"

text \<open>The second component of the result tells whether the warning
  \<^verbatim>\<open>Invalid size format\<close> was printed.\<close>

definition parse_size_w :: "string \<Rightarrow> py_exc + (int \<times> bool)" where
  "parse_size_w size_str =
     (let s = strip (upper size_str) in
      case parse_size_loop s multipliers of
        Some (Inl e) \<Rightarrow> Inl e
      | Some (Inr b) \<Rightarrow> Inr (b, False)
      | None \<Rightarrow> (case py_int s of Some b \<Rightarrow> Inr (b, False) | None \<Rightarrow> Inr (0, True)))"

definition parse_size :: "string \<Rightarrow> py_exc + int" where
  "parse_size size_str = map_sum id fst (parse_size_w size_str)"

lemmas py_eval =
  exc_bind_def upper_def upper_char_def lower_def lower_char_def is_space_def strip_def
  is_c_space_def strip_c_def
  endswith_def digit_val_def is_digit_def split_sign_def py_int_def bits.simps
  floor_log2_def round_half_even_def round_binary64_def parse_exponent_def
  parse_decimal_def py_float_def float_mul_int_def int_of_float_def multipliers_def
  parse_size_w_def parse_size_def

section \<open>Paths, scanned entries and media types\<close>

text \<open>
  A \<^verbatim>\<open>pathlib.Path\<close> is the list of its components below the root. \<open>name_of\<close>,
  \<open>parent\<close>, \<open>suffix_of\<close> and \<open>stem_of\<close> are the properties \<^verbatim>\<open>name\<close>,
  \<^verbatim>\<open>parent\<close>, \<^verbatim>\<open>suffix\<close> and \<^verbatim>\<open>stem\<close>; \<open>joinpath d n\<close> is \<^verbatim>\<open>d / n\<close>.
\<close>

type_synonym path = "string list"

definition name_of :: "path \<Rightarrow> string" where
  "name_of p = (case rev p of [] \<Rightarrow> [] | n # _ \<Rightarrow> n)"

definition parent :: "path \<Rightarrow> path" where
  "parent p = butlast p"

definition joinpath :: "path \<Rightarrow> string \<Rightarrow> path" where
  "joinpath d n = d @ [n]"

definition rfind_dot :: "string \<Rightarrow> nat option" where
  "rfind_dot s =
     (if CHR ''.'' \<in> set s
      then Some (length s - 1 - length (takeWhile (\<lambda>c. c \<noteq> CHR ''.'') (rev s)))
      else None)"

definition suffix_of :: "path \<Rightarrow> string" where
  "suffix_of p =
     (let n = name_of p in
      case rfind_dot n of
        Some i \<Rightarrow> if 0 < i \<and> i < length n - 1 then drop i n else []
      | None \<Rightarrow> [])"

definition stem_of :: "path \<Rightarrow> string" where
  "stem_of p =
     (let n = name_of p in
      case rfind_dot n of
        Some i \<Rightarrow> if 0 < i \<and> i < length n - 1 then take i n else n
      | None \<Rightarrow> n)"

text \<open>A naive local \<^verbatim>\<open>datetime\<close> is modelled by the number of microseconds
  since the first instant of year 1, which orders datetimes as Python compares them. File
  times (\<^verbatim>\<open>st_ctime\<close>, \<^verbatim>\<open>st_mtime\<close>) are kept in the same unit, so that
  \<^verbatim>\<open>datetime.fromtimestamp\<close> is the identity.\<close>

type_synonym datetime = nat

text \<open>The dictionary that \<^verbatim>\<open>collect_media_files_optimized\<close> builds for a file:
  the keys \<^verbatim>\<open>path\<close>, \<^verbatim>\<open>size\<close> (here \<open>fsize\<close>), \<^verbatim>\<open>created\<close>,
  \<^verbatim>\<open>modified\<close>, \<^verbatim>\<open>extension\<close> and \<^verbatim>\<open>type\<close> (here \<open>mtype\<close>).\<close>

record file_info =
  path :: path
  fsize :: nat
  created :: datetime
  modified :: datetime
  extension :: string
  mtype :: string

text \<open>\<^verbatim>\<open>self.media_extensions\<close>, set in \<^verbatim>\<open>__init__\<close>.\<close>

definition media_extensions :: "string list" where
  "media_extensions =
     [''.jpg'', ''.jpeg'', ''.png'', ''.gif'', ''.mp4'', ''.bmp'', ''.tiff'', ''.webp'',
      ''.mov'', ''.avi'', ''.mkv'', ''.webm'', ''.m4v'', ''.flv'',
      ''.svg'', ''.ico'', ''.heic'', ''.heif'']"

text \<open>\<^verbatim>\<open>get_media_metadata\<close> returns a dictionary with the single key
  \<^verbatim>\<open>type\<close>; the model returns its value. The \<^verbatim>\<open>except\<close> branch
  (\<^verbatim>\<open>'unknown'\<close>) guards two set-membership tests of a string, which cannot raise.\<close>

definition get_media_metadata :: "path \<Rightarrow> string" where
  "get_media_metadata file_path =
     (if lower (suffix_of file_path) \<in> set [''.jpg'', ''.jpeg'', ''.png'', ''.bmp'', ''.tiff'', ''.webp'']
      then ''image''
      else if lower (suffix_of file_path)
                \<in> set [''.mp4'', ''.mov'', ''.avi'', ''.mkv'', ''.webm'', ''.m4v'', ''.flv'']
      then ''video''
      else ''other'')"

section \<open>Filters\<close>

text \<open>\<^verbatim>\<open>datetime.strptime(s, '%Y-%m-%d')\<close>: four digits, one or two digits for a month
  from 1 to 12, one or two digits (or a blank and a digit) for a day that the month has.
  \<open>None\<close> stands for the \<^verbatim>\<open>ValueError\<close>.\<close>

fun split_on :: "char \<Rightarrow> string \<Rightarrow> string list" where
  "split_on c [] = [[]]"
| "split_on c (x # xs) =
     (if x = c then [] # split_on c xs
      else (case split_on c xs of
              [] \<Rightarrow> [[x]]
            | w # ws \<Rightarrow> (x # w) # ws))"

definition is_leap :: "nat \<Rightarrow> bool" where
  "is_leap y = (y mod 4 = 0 \<and> (y mod 100 \<noteq> 0 \<or> y mod 400 = 0))"

definition days_in_month :: "nat \<Rightarrow> nat \<Rightarrow> nat" where
  "days_in_month y m =
     (if m = 2 then (if is_leap y then 29 else 28)
      else if m \<in> set [4, 6, 9, 11] then 30 else 31)"

text \<open>The datetime of midnight on a date, from the proleptic Gregorian day count
  (\<^verbatim>\<open>date.toordinal\<close>).\<close>

definition days_before_year :: "nat \<Rightarrow> nat" where
  "days_before_year y = (y - 1) * 365 + (y - 1) div 4 - (y - 1) div 100 + (y - 1) div 400"

definition days_before_month :: "nat \<Rightarrow> nat \<Rightarrow> nat" where
  "days_before_month y m = sum_list (map (days_in_month y) [1..<m])"

definition midnight :: "nat \<Rightarrow> nat \<Rightarrow> nat \<Rightarrow> datetime" where
  "midnight y m d =
     (days_before_year y + days_before_month y m + d - 1) * 86400 * 1000000"

definition small_field :: "string \<Rightarrow> nat option" where
  "small_field s =
     (if (length s = 1 \<or> length s = 2) \<and> list_all is_digit s then Some (digits_val 0 s)
      else None)"

definition day_field :: "string \<Rightarrow> nat option" where
  "day_field s =
     (case s of
        [b, d] \<Rightarrow> if b = CHR '' '' \<and> is_digit d then Some (digits_val 0 [d]) else small_field s
      | _ \<Rightarrow> small_field s)"

definition strptime_ymd :: "string \<Rightarrow> datetime option" where
  "strptime_ymd s =
     (case split_on (CHR ''-'') s of
        [ys, ms, ds] \<Rightarrow>
          (if length ys = 4 \<and> list_all is_digit ys then
             (case (small_field ms, day_field ds) of
                (Some m, Some d) \<Rightarrow>
                  (let y = digits_val 0 ys in
                   if 1 \<le> y \<and> 1 \<le> m \<and> m \<le> 12 \<and> 1 \<le> d \<and> d \<le> days_in_month y m
                   then Some (midnight y m d)
                   else None)
              | _ \<Rightarrow> None)
           else None)
      | _ \<Rightarrow> None)"

text \<open>The \<^verbatim>\<open>filters\<close> dictionary: a key that is absent is \<open>None\<close>. A test
  \<^verbatim>\<open>'k' in filters and filters['k']\<close> holds when the key is present with a non-empty
  value, which \<open>given\<close> expresses.\<close>

record filters =
  min_size :: "string option"
  max_size :: "string option"
  date_from :: "string option"
  date_to :: "string option"
  file_types :: "string list option"
  media_types :: "string list option"

definition no_filters :: filters where
  "no_filters =
     \<lparr>min_size = None, max_size = None, date_from = None, date_to = None,
      file_types = None, media_types = None\<rparr>"

definition given :: "'a list option \<Rightarrow> 'a list option" where
  "given v = (case v of None \<Rightarrow> None | Some x \<Rightarrow> if x = [] then None else Some x)"

definition filter_min_size :: "filters \<Rightarrow> file_info list \<Rightarrow> py_exc + file_info list" where
  "filter_min_size flt fs =
     (case given (min_size flt) of
        None \<Rightarrow> Inr fs
      | Some s \<Rightarrow> exc_bind (parse_size s) (\<lambda>min_bytes. Inr (filter (\<lambda>f. min_bytes \<le> int (fsize f)) fs)))"

definition filter_max_size :: "filters \<Rightarrow> file_info list \<Rightarrow> py_exc + file_info list" where
  "filter_max_size flt fs =
     (case given (max_size flt) of
        None \<Rightarrow> Inr fs
      | Some s \<Rightarrow> exc_bind (parse_size s) (\<lambda>max_bytes. Inr (filter (\<lambda>f. int (fsize f) \<le> max_bytes) fs)))"

definition filter_date_from :: "filters \<Rightarrow> file_info list \<Rightarrow> py_exc + file_info list" where
  "filter_date_from flt fs =
     (case given (date_from flt) of
        None \<Rightarrow> Inr fs
      | Some s \<Rightarrow>
          (case strptime_ymd s of
             None \<Rightarrow> Inl ValueError
           | Some from_date \<Rightarrow> Inr (filter (\<lambda>f. from_date \<le> modified f) fs)))"

definition filter_date_to :: "filters \<Rightarrow> file_info list \<Rightarrow> py_exc + file_info list" where
  "filter_date_to flt fs =
     (case given (date_to flt) of
        None \<Rightarrow> Inr fs
      | Some s \<Rightarrow>
          (case strptime_ymd s of
             None \<Rightarrow> Inl ValueError
           | Some to_date \<Rightarrow> Inr (filter (\<lambda>f. modified f \<le> to_date) fs)))"

definition filter_file_types :: "filters \<Rightarrow> file_info list \<Rightarrow> file_info list" where
  "filter_file_types flt fs =
     (case given (file_types flt) of
        None \<Rightarrow> fs
      | Some allowed_types \<Rightarrow> filter (\<lambda>f. extension f \<in> set allowed_types) fs)"

definition filter_media_types :: "filters \<Rightarrow> file_info list \<Rightarrow> file_info list" where
  "filter_media_types flt fs =
     (case given (media_types flt) of
        None \<Rightarrow> fs
      | Some allowed_media \<Rightarrow> filter (\<lambda>f. mtype f \<in> set allowed_media) fs)"

text \<open>\<^verbatim>\<open>apply_filters\<close>: the six tests in the order of the source; an exception of
  \<^verbatim>\<open>parse_size\<close> or \<^verbatim>\<open>strptime\<close> is not caught here.\<close>

definition apply_filters :: "file_info list \<Rightarrow> filters option \<Rightarrow> py_exc + file_info list" where
  "apply_filters files_data filters =
     (case filters of
        None \<Rightarrow> Inr files_data
      | Some flt \<Rightarrow>
          if flt = no_filters then Inr files_data
          else
            exc_bind (filter_min_size flt files_data) (\<lambda>f1.
            exc_bind (filter_max_size flt f1) (\<lambda>f2.
            exc_bind (filter_date_from flt f2) (\<lambda>f3.
            exc_bind (filter_date_to flt f3) (\<lambda>f4.
            Inr (filter_media_types flt (filter_file_types flt f4)))))))"

lemmas filter_eval =
  given_def filter_min_size_def filter_max_size_def filter_date_from_def filter_date_to_def
  filter_file_types_def filter_media_types_def apply_filters_def no_filters_def
  strptime_ymd_def small_field_def day_field_def days_in_month_def is_leap_def
  days_before_year_def days_before_month_def midnight_def

lemmas path_eval =
  name_of_def parent_def joinpath_def rfind_dot_def suffix_of_def stem_of_def
  get_media_metadata_def media_extensions_def

section \<open>Selection\<close>

text \<open>
  The module-level random source is modelled by the list of the numbers it will produce:
  \<open>draw g n\<close> takes the next one and reduces it to an index below \<open>n\<close>. Every outcome
  of \<^verbatim>\<open>random.sample\<close> and \<^verbatim>\<open>random.shuffle\<close> is the result for some list, and a
  statement for all lists holds for all outcomes.
\<close>

type_synonym rng = "nat list"

definition draw :: "rng \<Rightarrow> nat \<Rightarrow> nat \<times> rng" where
  "draw g n = (case g of [] \<Rightarrow> (0, []) | r # rs \<Rightarrow> (r mod n, rs))"

fun sample_loop :: "rng \<Rightarrow> 'a list \<Rightarrow> nat \<Rightarrow> 'a list \<times> rng" where
  "sample_loop g xs 0 = ([], g)"
| "sample_loop g xs (Suc k) =
     (let (i, g1) = draw g (length xs);
          (ys, g2) = sample_loop g1 (take i xs @ drop (Suc i) xs) k
      in (xs ! i # ys, g2))"

text \<open>\<^verbatim>\<open>random.sample(population, k)\<close> raises \<^verbatim>\<open>ValueError\<close> when \<open>k\<close> is
  negative or larger than the population.\<close>

definition py_sample :: "rng \<Rightarrow> 'a list \<Rightarrow> int \<Rightarrow> py_exc + ('a list \<times> rng)" where
  "py_sample g xs k =
     (if k < 0 \<or> int (length xs) < k then Inl ValueError
      else Inr (sample_loop g xs (nat k)))"

definition py_shuffle :: "rng \<Rightarrow> 'a list \<Rightarrow> 'a list \<times> rng" where
  "py_shuffle g xs = sample_loop g xs (length xs)"

subsection \<open>select\_by\_total\_size\<close>

text \<open>\<^verbatim>\<open>folder_groups\<close>: a \<^verbatim>\<open>defaultdict(list)\<close> keyed by
  \<^verbatim>\<open>file_data['path'].parent\<close>, in the order in which the keys first occur.\<close>

fun group_add :: "path \<Rightarrow> file_info \<Rightarrow> (path \<times> file_info list) list
    \<Rightarrow> (path \<times> file_info list) list" where
  "group_add k f [] = [(k, [f])]"
| "group_add k f ((k', fs) # rest) =
     (if k = k' then (k', fs @ [f]) # rest else (k', fs) # group_add k f rest)"

definition folder_groups :: "file_info list \<Rightarrow> (path \<times> file_info list) list" where
  "folder_groups files_data = foldl (\<lambda>gs f. group_add (parent (path f)) f gs) [] files_data"

text \<open>The loop shared by both branches: an entry is appended when it still fits, and the
  loop is left as soon as the running total has reached the limit.\<close>

fun greedy :: "int \<Rightarrow> int \<Rightarrow> file_info list \<Rightarrow> file_info list" where
  "greedy limit folder_size [] = []"
| "greedy limit folder_size (f # fs) =
     (let fits = (folder_size + int (fsize f) \<le> limit);
          folder_size' = (if fits then folder_size + int (fsize f) else folder_size)
      in (if fits then [f] else [])
         @ (if limit \<le> folder_size' then [] else greedy limit folder_size' fs))"

definition select_by_total_size ::
    "rng \<Rightarrow> file_info list \<Rightarrow> string \<Rightarrow> bool \<Rightarrow> py_exc + (file_info list \<times> rng)" where
  "select_by_total_size g files_data target_size_str balanced =
     exc_bind (parse_size target_size_str) (\<lambda>target_bytes.
       if balanced then
         (let groups = folder_groups files_data in
          if length groups = 0 then Inl ZeroDivisionError
          else
            let size_per_folder = target_bytes div int (length groups)
            in Inr (concat (map (\<lambda>(folder, files). greedy size_per_folder 0 (sort_key fsize files))
                              groups), g))
       else
         (let (shuffled_files, g1) = py_shuffle g files_data
          in Inr (greedy target_bytes 0 shuffled_files, g1)))"

subsection \<open>Selection by count\<close>

text \<open>The balanced branch of \<^verbatim>\<open>randomly_select_and_copy_files\<close>: one pass over
  \<^verbatim>\<open>folder_files.items()\<close>, then the top-up from the entries not yet selected.\<close>

fun balanced_pass :: "rng \<Rightarrow> int \<Rightarrow> int \<Rightarrow> (path \<times> file_info list) list
    \<Rightarrow> py_exc + (file_info list \<times> rng)" where
  "balanced_pass g files_per_folder remaining [] = Inr ([], g)"
| "balanced_pass g files_per_folder remaining ((folder, files) # rest) =
     (if files \<noteq> [] then
        exc_bind (py_sample g files
                    (min (files_per_folder + (if 0 < remaining then 1 else 0)) (int (length files))))
          (\<lambda>(picked, g1).
             exc_bind (balanced_pass g1 files_per_folder
                         (if 0 < remaining then remaining - 1 else remaining) rest)
               (\<lambda>(more, g2). Inr (picked @ more, g2)))
      else balanced_pass g files_per_folder remaining rest)"

definition top_up :: "rng \<Rightarrow> file_info list \<Rightarrow> int \<Rightarrow> file_info list
    \<Rightarrow> py_exc + (file_info list \<times> rng)" where
  "top_up g all_files_data num_files selected_files =
     (if int (length selected_files) < num_files then
        (let remaining_files = filter (\<lambda>f. f \<notin> set selected_files) all_files_data in
         if remaining_files \<noteq> [] then
           exc_bind (py_sample g remaining_files
                       (min (num_files - int (length selected_files)) (int (length remaining_files))))
             (\<lambda>(additional, g1). Inr (selected_files @ additional, g1))
         else Inr (selected_files, g))
      else Inr (selected_files, g))"

definition select_by_count ::
    "rng \<Rightarrow> nat \<Rightarrow> (path \<times> file_info list) list \<Rightarrow> file_info list \<Rightarrow> int \<Rightarrow> bool
     \<Rightarrow> py_exc + (file_info list \<times> rng)" where
  "select_by_count g n_source_folders folder_files all_files_data num_files0 balanced =
     (let num_files = (if int (length all_files_data) < num_files0
                       then int (length all_files_data) else num_files0)
      in if balanced \<and> 0 < n_source_folders then
           exc_bind (balanced_pass g (num_files div int n_source_folders)
                       (num_files mod int n_source_folders) folder_files)
             (\<lambda>(selected_files, g1). top_up g1 all_files_data num_files selected_files)
         else py_sample g all_files_data num_files)"

lemmas select_eval =
  draw_def py_sample_def py_shuffle_def folder_groups_def select_by_total_size_def
  top_up_def select_by_count_def

section \<open>The file system\<close>

text \<open>
  The program reads and writes files: media files, the scan cache of a source folder, the
  resume file and the selection log. The file system is an explicit state: an association
  list of regular files, an association list of directories with their modification time,
  and a clock that advances with every change. The root \<open>[]\<close> is always a directory.
  Permissions, links and failing devices are not modelled: an operation fails only for the
  reasons written in its definition.
\<close>

text \<open>\<^verbatim>\<open>get_file_stats\<close>: per-extension counts, total size and count.\<close>

definition total_size :: "file_info list \<Rightarrow> int" where
  "total_size fs = sum_list (map (\<lambda>f. int (fsize f)) fs)"

fun bump :: "string \<Rightarrow> (string \<times> nat) list \<Rightarrow> (string \<times> nat) list" where
  "bump k [] = [(k, 1)]"
| "bump k ((k', n) # rest) = (if k = k' then (k', Suc n) # rest else (k', n) # bump k rest)"

record file_stats =
  type_counts :: "(string \<times> nat) list"
  stats_total_size :: int
  n_files :: nat

definition get_file_stats :: "file_info list \<Rightarrow> file_stats" where
  "get_file_stats files_list =
     \<lparr>type_counts = foldl (\<lambda>m f. bump (extension f) m) [] files_list,
      stats_total_size = total_size files_list,
      n_files = length files_list\<rparr>"

text \<open>What the resume file and the selection log hold.\<close>

record resume_state =
  operation :: string
  total_files :: nat
  copied_files :: "path list"
  saved_at :: datetime

record log_data =
  log_timestamp :: datetime
  destination :: path
  total_selected :: nat
  log_files :: "path list"
  log_stats :: file_stats
  filters_applied :: filters

datatype content =
    Media string
  | CachePickle "file_info list"
  | ResumeJson resume_state
  | SelectionLog log_data

record fnode =
  payload :: content
  st_size :: nat
  st_ctime :: datetime
  st_mtime :: datetime

record fsys =
  file_nodes :: "(path \<times> fnode) list"
  dir_nodes :: "(path \<times> datetime) list"
  clock :: datetime

definition is_file :: "fsys \<Rightarrow> path \<Rightarrow> bool" where
  "is_file fs p = (map_of (file_nodes fs) p \<noteq> None)"

definition is_dir :: "fsys \<Rightarrow> path \<Rightarrow> bool" where
  "is_dir fs p = (p = [] \<or> map_of (dir_nodes fs) p \<noteq> None)"

definition path_exists :: "fsys \<Rightarrow> path \<Rightarrow> bool" where
  "path_exists fs p = (is_file fs p \<or> is_dir fs p)"

definition dir_mtime :: "fsys \<Rightarrow> path \<Rightarrow> datetime" where
  "dir_mtime fs p = (case map_of (dir_nodes fs) p of Some t \<Rightarrow> t | None \<Rightarrow> 0)"

definition under_dir :: "path \<Rightarrow> path \<Rightarrow> bool" where
  "under_dir d p = (length d < length p \<and> take (length d) p = d)"

fun al_update :: "'k \<Rightarrow> 'v \<Rightarrow> ('k \<times> 'v) list \<Rightarrow> ('k \<times> 'v) list" where
  "al_update k v [] = [(k, v)]"
| "al_update k v ((k', v') # rest) =
     (if k = k' then (k, v) # rest else (k', v') # al_update k v rest)"

definition tick :: "fsys \<Rightarrow> fsys" where
  "tick fs = fs\<lparr>clock := Suc (clock fs)\<rparr>"

text \<open>Adding or removing an entry of a directory sets the directory's modification
  time.\<close>

definition touch_dir :: "fsys \<Rightarrow> path \<Rightarrow> fsys" where
  "touch_dir fs p =
     tick (fs\<lparr>dir_nodes := map (\<lambda>(d, t). if d = p then (d, clock fs) else (d, t)) (dir_nodes fs)\<rparr>)"

text \<open>\<^verbatim>\<open>open(p, 'w')\<close>, writing and closing: an existing file is replaced, a new file
  needs its parent directory.\<close>

definition write_file :: "fsys \<Rightarrow> path \<Rightarrow> content \<Rightarrow> nat \<Rightarrow> py_exc + fsys" where
  "write_file fs p c n =
     (if is_dir fs p then Inl IsADirectoryError
      else
        case map_of (file_nodes fs) p of
          Some old \<Rightarrow>
            Inr (tick (fs\<lparr>file_nodes :=
                   al_update p (old\<lparr>payload := c, st_size := n, st_ctime := clock fs,
                                    st_mtime := clock fs\<rparr>) (file_nodes fs)\<rparr>))
        | None \<Rightarrow>
            if is_dir fs (parent p) then
              (let fs1 = touch_dir fs (parent p)
               in Inr (tick (fs1\<lparr>file_nodes :=
                     file_nodes fs1 @ [(p, \<lparr>payload = c, st_size = n, st_ctime = clock fs1,
                                        st_mtime = clock fs1\<rparr>)]\<rparr>)))
            else if is_file fs (parent p) then Inl NotADirectoryError
            else Inl FileNotFoundError)"

text \<open>\<^verbatim>\<open>Path.unlink\<close>.\<close>

definition unlink :: "fsys \<Rightarrow> path \<Rightarrow> py_exc + fsys" where
  "unlink fs p =
     (if is_file fs p then
        (let fs1 = touch_dir fs (parent p)
         in Inr (fs1\<lparr>file_nodes := filter (\<lambda>(q, n). q \<noteq> p) (file_nodes fs1)\<rparr>))
      else if is_dir fs p then Inl IsADirectoryError
      else Inl FileNotFoundError)"

text \<open>\<^verbatim>\<open>os.mkdir\<close> that succeeded, \<^verbatim>\<open>Path.mkdir(exist_ok=True)\<close> and
  \<^verbatim>\<open>Path.mkdir(parents=True, exist_ok=True)\<close>.\<close>

definition make_dir :: "fsys \<Rightarrow> path \<Rightarrow> fsys" where
  "make_dir fs p =
     (let fs1 = touch_dir fs (parent p) in fs1\<lparr>dir_nodes := dir_nodes fs1 @ [(p, clock fs)]\<rparr>)"

definition mkdir_exist_ok :: "fsys \<Rightarrow> path \<Rightarrow> py_exc + fsys" where
  "mkdir_exist_ok fs p =
     (if is_dir fs p then Inr fs
      else if is_file fs p then Inl FileExistsError
      else if is_dir fs (parent p) then Inr (make_dir fs p)
      else if is_file fs (parent p) then Inl NotADirectoryError
      else Inl FileNotFoundError)"

function mkdir_parents :: "fsys \<Rightarrow> path \<Rightarrow> py_exc + fsys" where
  "mkdir_parents fs p =
     (if is_dir fs p then Inr fs
      else if is_file fs p then Inl FileExistsError
      else if is_dir fs (parent p) then Inr (make_dir fs p)
      else if is_file fs (parent p) then Inl NotADirectoryError
      else exc_bind (mkdir_parents fs (parent p)) (\<lambda>fs1. mkdir_exist_ok fs1 p))"
  by pat_completeness auto
termination
  by (relation "measure (\<lambda>(fs, p). length p)") (auto simp: is_dir_def parent_def)

declare mkdir_parents.simps [simp del]

text \<open>\<^verbatim>\<open>shutil.copy2(src, dst)\<close>: the data and the modification time of the source
  go to the destination (into it, when the destination is a directory).\<close>

definition set_mtime :: "fsys \<Rightarrow> path \<Rightarrow> datetime \<Rightarrow> fsys" where
  "set_mtime fs p t =
     fs\<lparr>file_nodes := map (\<lambda>(q, n). if q = p then (q, n\<lparr>st_mtime := t\<rparr>) else (q, n)) (file_nodes fs)\<rparr>"

definition copy2 :: "fsys \<Rightarrow> path \<Rightarrow> path \<Rightarrow> py_exc + fsys" where
  "copy2 fs src dst0 =
     (let dst = (if is_dir fs dst0 then joinpath dst0 (name_of src) else dst0) in
      case map_of (file_nodes fs) src of
        None \<Rightarrow> Inl (if is_dir fs src then IsADirectoryError else FileNotFoundError)
      | Some node \<Rightarrow>
          if dst = src then Inl SameFileError
          else exc_bind (write_file fs dst (payload node) (st_size node))
                 (\<lambda>fs1. Inr (set_mtime fs1 dst (st_mtime node))))"

section \<open>Scanning with the cache\<close>

definition cache_file_of :: "path \<Rightarrow> path" where
  "cache_file_of folder = joinpath folder ''.media_cache.pkl''"

definition scan_entry :: "path \<Rightarrow> fnode \<Rightarrow> file_info" where
  "scan_entry p n =
     \<lparr>path = p, fsize = st_size n, created = st_ctime n, modified = st_mtime n,
      extension = lower (suffix_of p), mtype = get_media_metadata p\<rparr>"

text \<open>The loop over \<^verbatim>\<open>folder.rglob('*')\<close>: the regular files below the folder whose
  lower-cased suffix is a media extension, in the order of the file system.\<close>

definition walk :: "fsys \<Rightarrow> path \<Rightarrow> file_info list" where
  "walk fs folder =
     map (\<lambda>(p, n). scan_entry p n)
       (filter (\<lambda>(p, n). under_dir folder p \<and> lower (suffix_of p) \<in> set media_extensions)
          (file_nodes fs))"

text \<open>The cache is used when its file is strictly newer than the folder and unpickles.\<close>

definition load_cache :: "fsys \<Rightarrow> path \<Rightarrow> file_info list option" where
  "load_cache fs folder =
     (case map_of (file_nodes fs) (cache_file_of folder) of
        None \<Rightarrow> None
      | Some node \<Rightarrow>
          if dir_mtime fs folder < st_mtime node then
            (case payload node of CachePickle cached_files \<Rightarrow> Some cached_files | _ \<Rightarrow> None)
          else None)"

definition collect_media_files_optimized ::
    "fsys \<Rightarrow> path \<Rightarrow> filters option \<Rightarrow> bool \<Rightarrow> fsys \<times> (py_exc + file_info list)" where
  "collect_media_files_optimized fs folder_path filters use_cache =
     (if \<not> is_dir fs folder_path then (fs, Inr [])
      else
        case (if use_cache then
                (case load_cache fs folder_path of
                   None \<Rightarrow> None
                 | Some cached_files \<Rightarrow>
                     (case apply_filters cached_files filters of
                        Inl e \<Rightarrow> None
                      | Inr r \<Rightarrow> Some r))
              else None) of
          Some r \<Rightarrow> (fs, Inr r)
        | None \<Rightarrow>
            (let files_data = walk fs folder_path;
                 fs1 = (if use_cache then
                          (case write_file fs (cache_file_of folder_path)
                                  (CachePickle files_data) 0 of
                             Inl e \<Rightarrow> fs
                           | Inr fs' \<Rightarrow> fs')
                        else fs)
             in (fs1, apply_filters files_data filters)))"

section \<open>The copy engine\<close>

definition save_operation_state :: "fsys \<Rightarrow> resume_state \<Rightarrow> path \<Rightarrow> fsys" where
  "save_operation_state fs state resume_file =
     (case write_file fs resume_file (ResumeJson state) 0 of Inl e \<Rightarrow> fs | Inr fs' \<Rightarrow> fs')"

definition load_operation_state :: "fsys \<Rightarrow> path \<Rightarrow> resume_state option" where
  "load_operation_state fs resume_file =
     (case map_of (file_nodes fs) resume_file of
        None \<Rightarrow> None
      | Some node \<Rightarrow> (case payload node of ResumeJson state \<Rightarrow> Some state | _ \<Rightarrow> None))"

text \<open>\<^verbatim>\<open>get_destination_path\<close>. The path it returns does not depend on the file
  system (\<open>destination_of\<close>); with \<^verbatim>\<open>preserve_structure\<close> it also creates the
  subfolder.\<close>

definition source_folder_of :: "path \<Rightarrow> file_info list \<Rightarrow> string" where
  "source_folder_of file_path all_selected_files =
     (case find (\<lambda>f. path f = file_path) all_selected_files of
        None \<Rightarrow> []
      | Some f \<Rightarrow> name_of (parent (path f)))"

definition destination_of :: "path \<Rightarrow> path \<Rightarrow> bool \<Rightarrow> file_info list \<Rightarrow> path" where
  "destination_of file_path dest_path preserve_structure all_selected_files =
     (if preserve_structure \<and> source_folder_of file_path all_selected_files \<noteq> []
      then joinpath (joinpath dest_path (source_folder_of file_path all_selected_files))
             (name_of file_path)
      else joinpath dest_path (name_of file_path))"

definition get_destination_path ::
    "fsys \<Rightarrow> path \<Rightarrow> path \<Rightarrow> bool \<Rightarrow> file_info list \<Rightarrow> fsys \<times> (py_exc + path)" where
  "get_destination_path fs file_path dest_path preserve_structure all_selected_files =
     (if preserve_structure \<and> source_folder_of file_path all_selected_files \<noteq> [] then
        (case mkdir_exist_ok fs
                (joinpath dest_path (source_folder_of file_path all_selected_files)) of
           Inl e \<Rightarrow> (fs, Inl e)
         | Inr fs1 \<Rightarrow>
             (fs1, Inr (destination_of file_path dest_path preserve_structure
                          all_selected_files)))
      else (fs, Inr (destination_of file_path dest_path preserve_structure
                       all_selected_files)))"

text \<open>\<^verbatim>\<open>str(counter)\<close> and the name \<^verbatim>\<open>f"{stem}_{counter}{suffix}"\<close> beside the
  original destination.\<close>

definition digit_char :: "nat \<Rightarrow> char" where
  "digit_char d = ''0123456789'' ! d"

fun str_nat :: "nat \<Rightarrow> string" where
  "str_nat n = (if n < 10 then [digit_char n] else str_nat (n div 10) @ [digit_char (n mod 10)])"

declare str_nat.simps [simp del]

definition numbered :: "path \<Rightarrow> nat \<Rightarrow> path" where
  "numbered original_dest counter =
     joinpath (parent original_dest)
       (stem_of original_dest @ ''_'' @ str_nat counter @ suffix_of original_dest)"


text \<open>The names \<open>numbered d 1\<close>, \<open>numbered d 2\<close>, \<dots> are pairwise different, and only
  finitely many paths exist; this is why the search for an unused name ends.\<close>

lemma str_nat_nonempty: "str_nat n \<noteq> []"
  by (subst str_nat.simps) simp

lemma digit_char_inj: "a < 10 \<Longrightarrow> b < 10 \<Longrightarrow> digit_char a = digit_char b \<Longrightarrow> a = b"
proof -
  assume a: "a < 10" and b: "b < 10" and e: "digit_char a = digit_char b"
  have d: "distinct ''0123456789''" by simp
  have "a < length ''0123456789''" "b < length ''0123456789''" using a b by simp_all
  with d e show "a = b" unfolding digit_char_def by (simp only: nth_eq_iff_index_eq)
qed

lemma str_nat_inj: "str_nat a = str_nat b \<Longrightarrow> a = b"
proof (induction a arbitrary: b rule: str_nat.induct)
  case (1 n)
  show ?case
  proof (cases "n < 10")
    case True
    show ?thesis
    proof (cases "b < 10")
      case b: True
      from "1.prems" True b have "digit_char n = digit_char b"
        by (simp add: str_nat.simps[of n] str_nat.simps[of b])
      with True b show ?thesis by (rule digit_char_inj)
    next
      case False
      with "1.prems" True have "[digit_char n] = str_nat (b div 10) @ [digit_char (b mod 10)]"
        by (simp add: str_nat.simps[of n] str_nat.simps[of b])
      then show ?thesis using str_nat_nonempty[of "b div 10"] by simp
    qed
  next
    case False
    show ?thesis
    proof (cases "b < 10")
      case True
      with "1.prems" False have "str_nat (n div 10) @ [digit_char (n mod 10)] = [digit_char b]"
        by (simp add: str_nat.simps[of n] str_nat.simps[of b])
      then show ?thesis using str_nat_nonempty[of "n div 10"] by simp
    next
      case b: False
      from "1.prems" False b
      have "str_nat (n div 10) @ [digit_char (n mod 10)] = str_nat (b div 10) @ [digit_char (b mod 10)]"
        by (simp add: str_nat.simps[of n] str_nat.simps[of b])
      then have e1: "str_nat (n div 10) = str_nat (b div 10)"
        and e2: "digit_char (n mod 10) = digit_char (b mod 10)" by simp_all
      from "1.IH"[OF False e1] have d: "n div 10 = b div 10" .
      have "n mod 10 = b mod 10" by (rule digit_char_inj[OF _ _ e2]) simp_all
      with d show ?thesis by (metis div_mult_mod_eq)
    qed
  qed
qed

lemma numbered_inj: "numbered d a = numbered d b \<Longrightarrow> a = b"
  by (simp add: numbered_def joinpath_def str_nat_inj)

lemma numbered_not_root: "numbered d k \<noteq> []"
  by (simp add: numbered_def joinpath_def)

lemma path_exists_listed:
  "path_exists fs q \<Longrightarrow> q \<noteq> [] \<Longrightarrow> q \<in> set (map fst (file_nodes fs) @ map fst (dir_nodes fs))"
  by (auto simp: path_exists_def is_file_def is_dir_def map_of_eq_None_iff)

lemma filter_length_mono:
  "(\<And>x. x \<in> set L \<Longrightarrow> Q x \<Longrightarrow> P x) \<Longrightarrow> length (filter Q L) \<le> length (filter P L)"
  by (induction L) auto

lemma filter_length_strict:
  "(\<And>x. x \<in> set L \<Longrightarrow> Q x \<Longrightarrow> P x) \<Longrightarrow> y \<in> set L \<Longrightarrow> P y \<Longrightarrow> \<not> Q y
   \<Longrightarrow> length (filter Q L) < length (filter P L)"
proof (induction L)
  case Nil
  then show ?case by simp
next
  case (Cons a L)
  have m: "length (filter Q L) \<le> length (filter P L)"
    by (rule filter_length_mono) (use Cons.prems(1) in auto)
  show ?case
  proof (cases "y = a")
    case True
    then show ?thesis using m Cons.prems by auto
  next
    case False
    then have "y \<in> set L" using Cons.prems(2) by simp
    from Cons.IH[OF _ this Cons.prems(3,4)] Cons.prems(1)
    have "length (filter Q L) < length (filter P L)" by auto
    then show ?thesis using Cons.prems(1)[of a] by auto
  qed
qed

lemma later_numbers_fewer:
  assumes "numbered d c \<in> set L"
  shows "length (filter (\<lambda>p. \<exists>k\<ge>Suc c. p = numbered d k) L)
       < length (filter (\<lambda>p. \<exists>k\<ge>c. p = numbered d k) L)"
proof (rule filter_length_strict[where y = "numbered d c"])
  fix x assume "\<exists>k\<ge>Suc c. x = numbered d k"
  then obtain k where "Suc c \<le> k" "x = numbered d k" by blast
  then have "c \<le> k \<and> x = numbered d k" by simp
  then show "\<exists>k\<ge>c. x = numbered d k" by blast
next
  show "numbered d c \<in> set L" by (rule assms)
next
  show "\<exists>k\<ge>c. numbered d c = numbered d k" by blast
next
  show "\<not> (\<exists>k\<ge>Suc c. numbered d c = numbered d k)"
  proof
    assume "\<exists>k\<ge>Suc c. numbered d c = numbered d k"
    then obtain k where k: "Suc c \<le> k" "numbered d c = numbered d k" by blast
    from numbered_inj[OF k(2)] k(1) show False by simp
  qed
qed

text \<open>The loop \<^verbatim>\<open>while dest_file.exists()\<close> of \<^verbatim>\<open>copy_single_file\<close>, from a
  counter on, and with the first test on the original destination.\<close>

function next_unused :: "fsys \<Rightarrow> path \<Rightarrow> nat \<Rightarrow> path" where
  "next_unused fs original_dest counter =
     (if path_exists fs (numbered original_dest counter)
      then next_unused fs original_dest (Suc counter)
      else numbered original_dest counter)"
  by pat_completeness auto
termination
proof (relation "measure (\<lambda>(fs, d, c).
         length (filter (\<lambda>p. \<exists>k\<ge>c. p = numbered d k)
                   (map fst (file_nodes fs) @ map fst (dir_nodes fs))))")
  show "wf (measure (\<lambda>(fs, d, c).
         length (filter (\<lambda>p. \<exists>k\<ge>c. p = numbered d k)
                   (map fst (file_nodes fs) @ map fst (dir_nodes fs)))))"
    by simp
next
  fix fs :: fsys and original_dest :: path and counter :: nat
  assume "path_exists fs (numbered original_dest counter)"
  then have "numbered original_dest counter
      \<in> set (map fst (file_nodes fs) @ map fst (dir_nodes fs))"
    using numbered_not_root by (rule path_exists_listed)
  from later_numbers_fewer[OF this]
  show "((fs, original_dest, Suc counter), (fs, original_dest, counter))
      \<in> measure (\<lambda>(fs, d, c).
         length (filter (\<lambda>p. \<exists>k\<ge>c. p = numbered d k)
                   (map fst (file_nodes fs) @ map fst (dir_nodes fs))))"
    by simp
qed

declare next_unused.simps [simp del]

definition unused_name :: "fsys \<Rightarrow> path \<Rightarrow> path" where
  "unused_name fs dest_file =
     (if path_exists fs dest_file then next_unused fs dest_file 1 else dest_file)"

text \<open>An error message \<^verbatim>\<open>f"Error copying {file_path}: {e}"\<close> is the pair of the path
  and the exception.\<close>

type_synonym copy_error = "path \<times> py_exc"

text \<open>\<^verbatim>\<open>copy_single_file\<close>, the task given to the worker pool. Every exception inside
  it is caught and returned as an error.\<close>

definition copy_single_file ::
    "fsys \<Rightarrow> file_info list \<Rightarrow> path \<Rightarrow> bool \<Rightarrow> file_info \<Rightarrow> fsys \<times> (copy_error + path)" where
  "copy_single_file fs selected_files dest_path preserve_structure file_data =
     (case get_destination_path fs (path file_data) dest_path preserve_structure
             selected_files of
        (fs1, Inl e) \<Rightarrow> (fs1, Inl (path file_data, e))
      | (fs1, Inr dest_file0) \<Rightarrow>
          (case mkdir_parents fs1 (parent dest_file0) of
             Inl e \<Rightarrow> (fs1, Inl (path file_data, e))
           | Inr fs2 \<Rightarrow>
               (case copy2 fs2 (path file_data) (unused_name fs2 dest_file0) of
                  Inl e \<Rightarrow> (fs2, Inl (path file_data, e))
                | Inr fs3 \<Rightarrow> (fs3, Inr (unused_name fs2 dest_file0)))))"

text \<open>The loop that filters out the files already copied. An exception of
  \<^verbatim>\<open>get_destination_path\<close> is not caught here.\<close>

fun remaining_loop ::
    "fsys \<Rightarrow> file_info list \<Rightarrow> path \<Rightarrow> bool \<Rightarrow> path list \<Rightarrow> file_info list
     \<Rightarrow> fsys \<times> (py_exc + file_info list)" where
  "remaining_loop fs selected_files dest_path preserve_structure copied [] = (fs, Inr [])"
| "remaining_loop fs selected_files dest_path preserve_structure copied (file_data # rest) =
     (case get_destination_path fs (path file_data) dest_path preserve_structure
             selected_files of
        (fs1, Inl e) \<Rightarrow> (fs1, Inl e)
      | (fs1, Inr dest_file) \<Rightarrow>
          (case remaining_loop fs1 selected_files dest_path preserve_structure copied rest of
             (fs2, Inl e) \<Rightarrow> (fs2, Inl e)
           | (fs2, Inr remaining_files) \<Rightarrow>
               (fs2, Inr (if dest_file \<notin> set copied \<and> \<not> path_exists fs1 dest_file
                          then file_data # remaining_files else remaining_files))))"

text \<open>
  The loop over the completed tasks. The pool runs the tasks concurrently; the model runs
  them one after another in the order of submission and handles each result at once.
  \<open>i\<close> counts the completions from 1; the resume state is saved when \<open>i\<close> is a multiple
  of 10 and after the last task.
\<close>

record copy_progress =
  copied_set :: "path list"
  copied_count :: nat
  errors :: "copy_error list"

definition checkpoint ::
    "fsys \<Rightarrow> path option \<Rightarrow> nat \<Rightarrow> nat \<Rightarrow> nat \<Rightarrow> copy_progress \<Rightarrow> fsys" where
  "checkpoint fs resume_file n_selected n_remaining i progress =
     (if i mod 10 = 0 \<or> i = n_remaining then
        (case resume_file of
           None \<Rightarrow> fs
         | Some rf \<Rightarrow>
             save_operation_state fs
               \<lparr>operation = ''copy_files'', total_files = n_selected,
                copied_files = copied_set progress, saved_at = clock fs\<rparr> rf)
      else fs)"

fun copy_loop ::
    "fsys \<Rightarrow> file_info list \<Rightarrow> path \<Rightarrow> bool \<Rightarrow> path option \<Rightarrow> nat \<Rightarrow> nat \<Rightarrow> copy_progress
     \<Rightarrow> file_info list \<Rightarrow> fsys \<times> copy_progress" where
  "copy_loop fs selected_files dest_path preserve_structure resume_file n_remaining i progress []
     = (fs, progress)"
| "copy_loop fs selected_files dest_path preserve_structure resume_file n_remaining i progress
     (file_data # rest) =
     (case copy_single_file fs selected_files dest_path preserve_structure file_data of
        (fs1, r) \<Rightarrow>
          (let progress1 =
                 (case r of
                    Inl err \<Rightarrow> progress\<lparr>errors := errors progress @ [err]\<rparr>
                  | Inr dest_file \<Rightarrow>
                      progress\<lparr>copied_set := List.insert dest_file (copied_set progress),
                               copied_count := Suc (copied_count progress)\<rparr>);
               fs2 = checkpoint fs1 resume_file (length selected_files) n_remaining i progress1
           in copy_loop fs2 selected_files dest_path preserve_structure resume_file n_remaining
                (Suc i) progress1 rest))"

text \<open>The resume ledger that \<^verbatim>\<open>copy_files_parallel\<close> starts from.\<close>

definition loaded_ledger :: "fsys \<Rightarrow> path option \<Rightarrow> path list" where
  "loaded_ledger fs resume_file =
     (case resume_file of
        None \<Rightarrow> []
      | Some rf \<Rightarrow>
          if path_exists fs rf then
            (case load_operation_state fs rf of
               None \<Rightarrow> []
             | Some state \<Rightarrow> remdups (copied_files state))
          else [])"

definition copy_files_parallel ::
    "fsys \<Rightarrow> file_info list \<Rightarrow> path \<Rightarrow> bool \<Rightarrow> path option
     \<Rightarrow> fsys \<times> (py_exc + (nat \<times> copy_error list))" where
  "copy_files_parallel fs selected_files dest_path preserve_structure resume_file =
     (case mkdir_parents fs dest_path of
        Inl e \<Rightarrow> (fs, Inl e)
      | Inr fs0 \<Rightarrow>
          (case remaining_loop fs0 selected_files dest_path preserve_structure
                  (loaded_ledger fs0 resume_file) selected_files of
             (fs1, Inl e) \<Rightarrow> (fs1, Inl e)
           | (fs1, Inr remaining_files) \<Rightarrow>
               if remaining_files = [] then (fs1, Inr (length selected_files, []))
               else
                 (case copy_loop fs1 selected_files dest_path preserve_structure resume_file
                         (length remaining_files) 1
                         \<lparr>copied_set = loaded_ledger fs0 resume_file,
                          copied_count = length (loaded_ledger fs0 resume_file),
                          errors = []\<rparr>
                         remaining_files of
                    (fs2, progress) \<Rightarrow> (fs2, Inr (copied_count progress, errors progress)))))"

section \<open>The selection log and undo\<close>

definition log_file_of :: "path \<Rightarrow> path" where
  "log_file_of destination_folder = joinpath destination_folder ''selection_log.json''"

definition save_selection_log ::
    "fsys \<Rightarrow> file_info list \<Rightarrow> path \<Rightarrow> file_stats \<Rightarrow> filters option \<Rightarrow> fsys" where
  "save_selection_log fs selected_files destination_folder stats filters =
     (case write_file fs (log_file_of destination_folder)
             (SelectionLog
                \<lparr>log_timestamp = clock fs, destination = destination_folder,
                 total_selected = length selected_files,
                 log_files = map path selected_files,
                 log_stats = stats,
                 filters_applied = (case filters of None \<Rightarrow> no_filters | Some flt \<Rightarrow> flt)\<rparr>) 0 of
        Inl e \<Rightarrow> fs
      | Inr fs' \<Rightarrow> fs')"

text \<open>\<^verbatim>\<open>undo_last_operation\<close>: every listed path that exists is unlinked; a failure is
  printed and skipped. The result is the new file system, the number of deleted files and
  the returned flag.\<close>

fun undo_loop :: "fsys \<Rightarrow> nat \<Rightarrow> path list \<Rightarrow> fsys \<times> nat" where
  "undo_loop fs deleted [] = (fs, deleted)"
| "undo_loop fs deleted (file_path # rest) =
     (if path_exists fs file_path then
        (case unlink fs file_path of
           Inl e \<Rightarrow> undo_loop fs deleted rest
         | Inr fs1 \<Rightarrow> undo_loop fs1 (Suc deleted) rest)
      else undo_loop fs deleted rest)"

definition undo_last_operation :: "fsys \<Rightarrow> path \<Rightarrow> fsys \<times> nat \<times> bool" where
  "undo_last_operation fs destination_folder =
     (if \<not> path_exists fs (log_file_of destination_folder) then (fs, 0, False)
      else
        case map_of (file_nodes fs) (log_file_of destination_folder) of
          None \<Rightarrow> (fs, 0, False)
        | Some node \<Rightarrow>
            (case (case payload node of
                     SelectionLog l \<Rightarrow> Some (log_files l)
                   | ResumeJson s \<Rightarrow> Some []
                   | _ \<Rightarrow> None) of
               None \<Rightarrow> (fs, 0, False)
             | Some listed \<Rightarrow>
                 (case undo_loop fs 0 listed of
                    (fs1, deleted) \<Rightarrow>
                      (case unlink fs1 (log_file_of destination_folder) of
                         Inl e \<Rightarrow> (fs1, deleted, True)
                       | Inr fs2 \<Rightarrow> (fs2, deleted, True)))))"

section \<open>The whole operation\<close>

text \<open>
  The arguments of \<^verbatim>\<open>randomly_select_and_copy_files\<close>. \<^verbatim>\<open>max_workers\<close> has no
  counterpart, since the model runs the tasks of a pool one after another.
  When more than one source folder is given the folders are scanned by a pool, and their
  results arrive in the order of completion: \<open>cfg_completion\<close> is that order.
\<close>

record run_config =
  cfg_source_folders :: "path list"
  cfg_destination_folder :: path
  cfg_num_files :: int
  cfg_target_size :: "string option"
  cfg_balanced :: bool
  cfg_dry_run :: bool
  cfg_preserve_structure :: bool
  cfg_filters :: "filters option"
  cfg_resume_file :: "path option"
  cfg_use_cache :: bool
  cfg_completion :: "path list"

text \<open>The scans. In the pool an exception of a scan is caught and the folder gets no entry
  in \<^verbatim>\<open>folder_files\<close>; in the inline loop it propagates.\<close>

fun scan_loop ::
    "fsys \<Rightarrow> filters option \<Rightarrow> bool \<Rightarrow> bool \<Rightarrow> (path \<times> file_info list) list \<Rightarrow> file_info list
     \<Rightarrow> path list
     \<Rightarrow> fsys \<times> (py_exc + ((path \<times> file_info list) list \<times> file_info list))" where
  "scan_loop fs filters use_cache pooled folder_files all_files_data [] =
     (fs, Inr (folder_files, all_files_data))"
| "scan_loop fs filters use_cache pooled folder_files all_files_data (folder # rest) =
     (case collect_media_files_optimized fs folder filters use_cache of
        (fs1, Inl e) \<Rightarrow>
          if pooled
          then scan_loop fs1 filters use_cache pooled folder_files all_files_data rest
          else (fs1, Inl e)
      | (fs1, Inr found) \<Rightarrow>
          scan_loop fs1 filters use_cache pooled (al_update folder found folder_files)
            (all_files_data @ found) rest)"

definition scan_folders ::
    "fsys \<Rightarrow> run_config
     \<Rightarrow> fsys \<times> (py_exc + ((path \<times> file_info list) list \<times> file_info list))" where
  "scan_folders fs cfg =
     (if 1 < length (cfg_source_folders cfg)
      then scan_loop fs (cfg_filters cfg) (cfg_use_cache cfg) True [] [] (cfg_completion cfg)
      else scan_loop fs (cfg_filters cfg) (cfg_use_cache cfg) False [] []
             (cfg_source_folders cfg))"

text \<open>The selection step (\<^verbatim>\<open># Selection logic\<close>).\<close>

definition select_files ::
    "rng \<Rightarrow> run_config \<Rightarrow> (path \<times> file_info list) list \<Rightarrow> file_info list
     \<Rightarrow> py_exc + (file_info list \<times> rng)" where
  "select_files g cfg folder_files all_files_data =
     (case given (cfg_target_size cfg) of
        Some target_size \<Rightarrow>
          select_by_total_size g all_files_data target_size (cfg_balanced cfg)
      | None \<Rightarrow>
          select_by_count g (length (cfg_source_folders cfg)) folder_files all_files_data
            (cfg_num_files cfg) (cfg_balanced cfg))"

text \<open>What follows the scans: the statistics loop (which looks every source folder up in
  \<^verbatim>\<open>folder_files\<close>), the early return when nothing was found, the selection, the dry
  run, and otherwise the copy, the log and the removal of the resume file.\<close>

definition after_scan ::
    "fsys \<Rightarrow> rng \<Rightarrow> run_config \<Rightarrow> path option \<Rightarrow> (path \<times> file_info list) list
     \<Rightarrow> file_info list \<Rightarrow> fsys \<times> (py_exc + nat)" where
  "after_scan fs g cfg resume_file folder_files all_files_data =
     (if \<exists>folder \<in> set (cfg_source_folders cfg). map_of folder_files folder = None
      then (fs, Inl KeyError)
      else if length all_files_data = 0 then (fs, Inr 0)
      else
        case select_files g cfg folder_files all_files_data of
          Inl e \<Rightarrow> (fs, Inl e)
        | Inr (selected_files, g1) \<Rightarrow>
            if cfg_dry_run cfg then (fs, Inr (length selected_files))
            else
              (case copy_files_parallel fs selected_files (cfg_destination_folder cfg)
                      (cfg_preserve_structure cfg) resume_file of
                 (fs1, Inl e) \<Rightarrow> (fs1, Inl e)
               | (fs1, Inr (n_copied, errs)) \<Rightarrow>
                   (let fs2 = save_selection_log fs1 selected_files
                                (cfg_destination_folder cfg)
                                (get_file_stats selected_files) (cfg_filters cfg);
                        fs3 = (case resume_file of
                                 None \<Rightarrow> fs2
                               | Some rf \<Rightarrow>
                                   if path_exists fs2 rf \<and> errs = [] then
                                     (case unlink fs2 rf of Inl e \<Rightarrow> fs2 | Inr fs' \<Rightarrow> fs')
                                   else fs2)
                    in (fs3, Inr n_copied))))"

definition randomly_select_and_copy_files ::
    "fsys \<Rightarrow> rng \<Rightarrow> run_config \<Rightarrow> fsys \<times> (py_exc + nat)" where
  "randomly_select_and_copy_files fs g cfg =
     (case (if \<not> path_exists fs (cfg_destination_folder cfg) \<and> \<not> cfg_dry_run cfg
            then mkdir_parents fs (cfg_destination_folder cfg) else Inr fs) of
        Inl e \<Rightarrow> (fs, Inr 0)
      | Inr fs0 \<Rightarrow>
          (let resume_file =
                 (case cfg_resume_file cfg of
                    None \<Rightarrow> Some (joinpath (cfg_destination_folder cfg) ''operation_resume.json'')
                  | Some rf \<Rightarrow> Some rf)
           in case scan_folders fs0 cfg of
                (fs1, Inl e) \<Rightarrow> (fs1, Inl e)
              | (fs1, Inr (folder_files, all_files_data)) \<Rightarrow>
                  after_scan fs1 g cfg resume_file folder_files all_files_data))"

lemmas fs_eval =
  total_size_def get_file_stats_def is_file_def is_dir_def path_exists_def dir_mtime_def
  under_dir_def tick_def touch_dir_def write_file_def unlink_def make_dir_def
  mkdir_exist_ok_def mkdir_parents.simps set_mtime_def copy2_def cache_file_of_def
  scan_entry_def walk_def load_cache_def collect_media_files_optimized_def

lemmas copy_eval =
  save_operation_state_def load_operation_state_def source_folder_of_def
  destination_of_def get_destination_path_def digit_char_def str_nat.simps numbered_def
  next_unused.simps unused_name_def copy_single_file_def checkpoint_def loaded_ledger_def
  copy_files_parallel_def log_file_of_def save_selection_log_def undo_last_operation_def

lemmas run_eval =
  scan_folders_def select_files_def after_scan_def randomly_select_and_copy_files_def


section \<open>Views of the file system used in the statements\<close>

text \<open>\<open>contents fs p\<close> is the data of the regular file at \<open>p\<close>, without its times.
  \<open>subfolder_ok\<close> says that the subfolder \<^verbatim>\<open>get_destination_path\<close> would create for a
  file is there already, and \<open>grows fs fs'\<close> that every directory and every path of \<open>fs\<close>
  still exists in \<open>fs'\<close>.\<close>

definition contents :: "fsys \<Rightarrow> path \<Rightarrow> content option" where
  "contents fs p = map_option payload (map_of (file_nodes fs) p)"

definition subfolder_ok :: "fsys \<Rightarrow> path \<Rightarrow> path \<Rightarrow> bool \<Rightarrow> file_info list \<Rightarrow> bool" where
  "subfolder_ok fs file_path dest_path preserve_structure all_selected_files =
     (preserve_structure \<and> source_folder_of file_path all_selected_files \<noteq> []
      \<longrightarrow> is_dir fs (joinpath dest_path (source_folder_of file_path all_selected_files)))"

definition grows :: "fsys \<Rightarrow> fsys \<Rightarrow> bool" where
  "grows fs fs' = ((\<forall>q. is_dir fs q \<longrightarrow> is_dir fs' q) \<and> (\<forall>q. path_exists fs q \<longrightarrow> path_exists fs' q))"

text \<open>\<open>logged_files fs destination_folder\<close> is the \<^verbatim>\<open>files\<close> list of the selection log
  in the destination folder, which is what \<^verbatim>\<open>undo_last_operation\<close> goes through.\<close>

definition logged_files :: "fsys \<Rightarrow> path \<Rightarrow> path list" where
  "logged_files fs destination_folder =
     (case contents fs (log_file_of destination_folder) of
        Some (SelectionLog l) \<Rightarrow> log_files l
      | _ \<Rightarrow> [])"


section \<open>Measures, the claims' wording and example data\<close>



text \<open>\<open>picked_from ys xs\<close>: the list \<open>ys\<close> consists of the entries of \<open>xs\<close> at pairwise
  different positions, which is what sampling without replacement returns.\<close>

definition picked_from :: "'a list \<Rightarrow> 'a list \<Rightarrow> bool" where
  "picked_from ys xs = (\<exists>js. ys = map ((!) xs) js \<and> distinct js \<and> (\<forall>j\<in>set js. j < length xs))"

text \<open>\<open>served_before gs i\<close>: the number of folders with a non-empty pool among the first
  \<open>i\<close> folders of \<open>gs\<close>.\<close>

definition served_before :: "(path \<times> file_info list) list \<Rightarrow> nat \<Rightarrow> nat" where
  "served_before gs i = length (filter (\<lambda>p. snd p \<noteq> []) (take i gs))"

text \<open>Entries and folders used where a statement is evaluated on concrete data.\<close>

definition example_entry :: "path \<Rightarrow> nat \<Rightarrow> file_info" where
  "example_entry p n =
     \<lparr>path = p, fsize = n, created = 0, modified = 0,
      extension = lower (suffix_of p), mtype = get_media_metadata p\<rparr>"

definition example_folder_files :: "(path \<times> file_info list) list" where
  "example_folder_files =
     [([''A''], [example_entry [''A'', ''a1.jpg''] 1, example_entry [''A'', ''a2.jpg''] 2,
                 example_entry [''A'', ''a3.jpg''] 3, example_entry [''A'', ''a4.jpg''] 4]),
      ([''B''], [example_entry [''B'', ''b1.png''] 5])]"

definition example_all_files :: "file_info list" where
  "example_all_files =
     [example_entry [''A'', ''a1.jpg''] 1, example_entry [''A'', ''a2.jpg''] 2,
      example_entry [''A'', ''a3.jpg''] 3, example_entry [''A'', ''a4.jpg''] 4,
      example_entry [''B'', ''b1.png''] 5]"

definition example_shared_files :: "file_info list" where
  "example_shared_files =
     [example_entry [''S'', ''a'', ''x.jpg''] 2, example_entry [''S'', ''a'', ''z.jpg''] 4,
      example_entry [''S'', ''b'', ''y.jpg''] 5]"


text \<open>File systems used where a statement is evaluated on concrete data: a source folder
  with a GIF, a HEIC and a text file; a source folder with one photo, a run that copies
  one file from it into the new folder \<^verbatim>\<open>dst\<close>, and the file systems after that run
  and after the undo that follows it.\<close>

definition media_node :: "string \<Rightarrow> nat \<Rightarrow> fnode" where
  "media_node d n = \<lparr>payload = Media d, st_size = n, st_ctime = 1, st_mtime = 1\<rparr>"

definition example_image_disk :: fsys where
  "example_image_disk =
     \<lparr>file_nodes = [([''src'', ''a.gif''], media_node ''gif'' 3),
                    ([''src'', ''b.HEIC''], media_node ''heic'' 4),
                    ([''src'', ''notes.txt''], media_node ''text'' 5)],
      dir_nodes = [([''src''], 1)], clock = 2\<rparr>"

definition example_photo_disk :: fsys where
  "example_photo_disk =
     \<lparr>file_nodes = [([''src'', ''a.jpg''], media_node ''photo'' 3)],
      dir_nodes = [([''src''], 1)], clock = 2\<rparr>"

definition example_run :: run_config where
  "example_run =
     \<lparr>cfg_source_folders = [[''src'']], cfg_destination_folder = [''dst''], cfg_num_files = 1,
      cfg_target_size = None, cfg_balanced = False, cfg_dry_run = False,
      cfg_preserve_structure = False, cfg_filters = None, cfg_resume_file = None,
      cfg_use_cache = False, cfg_completion = []\<rparr>"

definition example_after_run :: fsys where
  "example_after_run =
     \<lparr>file_nodes =
        [([''src'', ''a.jpg''], media_node ''photo'' 3),
         ([''dst'', ''a.jpg''],
          \<lparr>payload = Media ''photo'', st_size = 3, st_ctime = 4, st_mtime = 1\<rparr>),
         ([''dst'', ''selection_log.json''],
          \<lparr>payload =
             SelectionLog
               \<lparr>log_timestamp = 7, destination = [''dst''], total_selected = 1,
                log_files = [[''src'', ''a.jpg'']],
                log_stats = \<lparr>type_counts = [(''.jpg'', 1)], stats_total_size = 3, n_files = 1\<rparr>,
                filters_applied = no_filters\<rparr>,
           st_size = 0, st_ctime = 8, st_mtime = 8\<rparr>)],
      dir_nodes = [([''src''], 1), ([''dst''], 9)], clock = 10\<rparr>"

definition example_after_undo :: fsys where
  "example_after_undo =
     \<lparr>file_nodes =
        [([''dst'', ''a.jpg''],
          \<lparr>payload = Media ''photo'', st_size = 3, st_ctime = 4, st_mtime = 1\<rparr>)],
      dir_nodes = [([''src''], 10), ([''dst''], 11)], clock = 12\<rparr>"



section \<open>Results on size parsing and filtering\<close>

text \<open>
  Claim C2 (size suffixes). The claim says that a number followed by KB, MB, GB or TB parses
  to the number times 1024, \<open>1024\<^sup>2\<close>, \<open>1024\<^sup>3\<close> or \<open>1024\<^sup>4\<close>. In the code the loop over
  \<^verbatim>\<open>multipliers\<close> meets \<^verbatim>\<open>'B'\<close> first; every such string ends in B, so
  \<^verbatim>\<open>float\<close> is applied to a text that still ends in K, M, G or T, raises, and the loop
  is left; \<^verbatim>\<open>int\<close> of the whole string raises too, the warning is printed and 0 is
  returned. Evaluated at \<^verbatim>\<open>"10KB"\<close> and \<^verbatim>\<open>"1.5gb"\<close>: the result is 0, with the
  warning, where the claim gives 10240 and 1610612736. A plain integer and a number with
  the suffix B do parse.
\<close>

theorem parse_size_longer_suffix_is_zero:
  "parse_size_w ''10KB'' = Inr (0, True) \<and> parse_size_w ''1.5gb'' = Inr (0, True)
   \<and> parse_size ''10MB'' = Inr 0 \<and> parse_size ''2TB'' = Inr 0
   \<and> parse_size ''10B'' = Inr 10 \<and> parse_size ''2048'' = Inr 2048"
  by (simp add: py_eval)

text \<open>
  Claim C9 (malformed size filter). The claim says that a malformed \<^verbatim>\<open>min_size\<close> or
  \<^verbatim>\<open>max_size\<close> leaves the list as the absent constraint does. \<^verbatim>\<open>parse_size\<close>
  answers a malformed text with 0, and \<^verbatim>\<open>apply_filters\<close> uses that 0 as the bound:
  as a maximum it removes every file that is not empty. Evaluated on one file of 5 bytes
  with \<^verbatim>\<open>max_size = "abc"\<close>: the result is empty, while without the constraint the
  file is kept. (As a minimum the bound 0 keeps every file.)
\<close>

theorem apply_filters_malformed_max_size_drops_files:
  "apply_filters
     [\<lparr>path = [''src'', ''a.jpg''], fsize = 5, created = 0, modified = 0,
       extension = ''.jpg'', mtype = ''image''\<rparr>]
     (Some (no_filters\<lparr>max_size := Some ''abc''\<rparr>)) = Inr []
   \<and> apply_filters
     [\<lparr>path = [''src'', ''a.jpg''], fsize = 5, created = 0, modified = 0,
       extension = ''.jpg'', mtype = ''image''\<rparr>]
     (Some (no_filters\<lparr>date_to := Some ''9999-12-31''\<rparr>))
     = Inr [\<lparr>path = [''src'', ''a.jpg''], fsize = 5, created = 0, modified = 0,
       extension = ''.jpg'', mtype = ''image''\<rparr>]
   \<and> apply_filters
     [\<lparr>path = [''src'', ''a.jpg''], fsize = 5, created = 0, modified = 0,
       extension = ''.jpg'', mtype = ''image''\<rparr>]
     (Some (no_filters\<lparr>min_size := Some ''abc''\<rparr>))
     = Inr [\<lparr>path = [''src'', ''a.jpg''], fsize = 5, created = 0, modified = 0,
       extension = ''.jpg'', mtype = ''image''\<rparr>]
   \<and> parse_size_w ''abc'' = Inr (0, True)"
  by (simp add: filter_eval py_eval upt_conv_Cons)

section \<open>Results on selection\<close>

subsection \<open>Grouping by parent folder and the greedy loop\<close>

lemma total_size_simps [simp]:
  "total_size [] = 0" "total_size (f # fs) = int (fsize f) + total_size fs"
  "total_size (xs @ ys) = total_size xs + total_size ys"
  by (simp_all add: total_size_def)

lemma total_size_nonneg: "0 \<le> total_size fs"
  by (induction fs) simp_all

lemma group_add_keys:
  "map fst (group_add k f gs) = (if k \<in> fst ` set gs then map fst gs else map fst gs @ [k])"
  by (induction gs) (force simp: image_iff)+


lemma group_add_distinct: "distinct (map fst gs) \<Longrightarrow> distinct (map fst (group_add k f gs))"
  by (simp add: group_add_keys)

lemma group_add_keyset: "fst ` set (group_add k f gs) = insert k (fst ` set gs)"
  using arg_cong[OF group_add_keys[of k f gs], of set] by (auto split: if_splits)

lemma group_fold_keys:
  "fst ` set (foldl (\<lambda>gs f. group_add (key f) f gs) gs0 fs) = fst ` set gs0 \<union> key ` set fs"
  by (induction fs arbitrary: gs0) (simp_all add: group_add_keyset)

lemma group_fold_distinct:
  "distinct (map fst gs0) \<Longrightarrow> distinct (map fst (foldl (\<lambda>gs f. group_add (key f) f gs) gs0 fs))"
  by (induction fs arbitrary: gs0) (auto simp: group_add_distinct)


lemma folder_groups_keys:
  "fst ` set (folder_groups files_data) = (\<lambda>f. parent (path f)) ` set files_data"
  unfolding folder_groups_def by (simp add: group_fold_keys)

lemma folder_groups_distinct: "distinct (map fst (folder_groups files_data))"
  unfolding folder_groups_def by (rule group_fold_distinct) simp

lemma folder_groups_length:
  "length (folder_groups files_data) = card ((\<lambda>f. parent (path f)) ` set files_data)"
proof -
  have "length (folder_groups files_data) = length (map fst (folder_groups files_data))" by simp
  also have "\<dots> = card (set (map fst (folder_groups files_data)))"
    using folder_groups_distinct by (simp only: distinct_card)
  finally show ?thesis by (simp add: folder_groups_keys)
qed


lemma folder_groups_nonempty: "files_data \<noteq> [] \<Longrightarrow> 1 \<le> length (folder_groups files_data)"
  by (cases files_data) (auto simp: folder_groups_length card_gt_0_iff Suc_le_eq)


lemma greedy_nothing_fits:
  "\<forall>f \<in> set fs. limit < acc + int (fsize f) \<Longrightarrow> greedy limit acc fs = []"
  by (induction fs) (auto simp: Let_def)

lemma greedy_sorted_prefix:
  "sorted (map fsize fs) \<Longrightarrow> \<exists>k. greedy limit acc fs = take k fs"
proof (induction fs arbitrary: acc)
  case Nil
  then show ?case by simp
next
  case (Cons f fs)
  show ?case
  proof (cases "acc + int (fsize f) \<le> limit")
    case True
    from Cons.prems have "sorted (map fsize fs)" by simp
    from Cons.IH[OF this, of "acc + int (fsize f)"] obtain k
      where k: "greedy limit (acc + int (fsize f)) fs = take k fs" by blast
    show ?thesis
    proof (cases "limit \<le> acc + int (fsize f)")
      case True
      with \<open>acc + int (fsize f) \<le> limit\<close> have "greedy limit acc (f # fs) = take 1 (f # fs)"
        by (simp add: Let_def)
      then show ?thesis by blast
    next
      case False
      with True k have "greedy limit acc (f # fs) = take (Suc k) (f # fs)"
        by (simp add: Let_def)
      then show ?thesis by blast
    qed
  next
    case False
    have "\<forall>x \<in> set fs. limit < acc + int (fsize x)"
      using False Cons.prems by fastforce
    then have "greedy limit acc fs = []" by (rule greedy_nothing_fits)
    with False have "greedy limit acc (f # fs) = take 0 (f # fs)"
      by (simp add: Let_def)
    then show ?thesis by blast
  qed
qed




subsection \<open>Sampling and the balanced pass\<close>

lemma picked_from_Nil [simp]: "picked_from [] xs"
  by (simp add: picked_from_def)

lemma picked_from_subset: "picked_from ys xs \<Longrightarrow> set ys \<subseteq> set xs"
  by (auto simp: picked_from_def)

lemma picked_from_length: "picked_from ys xs \<Longrightarrow> length ys \<le> length xs"
proof -
  assume "picked_from ys xs"
  then obtain js where js: "ys = map ((!) xs) js" "distinct js" "\<forall>j\<in>set js. j < length xs"
    by (auto simp: picked_from_def)
  have "set js \<subseteq> {..<length xs}" using js(3) by auto
  then have "card (set js) \<le> card {..<length xs}" by (intro card_mono) simp_all
  then show ?thesis using js(1,2) by (simp add: distinct_card)
qed

lemma sample_loop_length:
  "k \<le> length xs \<Longrightarrow> length (fst (sample_loop g xs k)) = k"
proof (induction k arbitrary: g xs)
  case 0
  then show ?case by simp
next
  case (Suc k)
  obtain i g1 where d: "draw g (length xs) = (i, g1)" by (cases "draw g (length xs)")
  have i: "i < length xs"
  proof -
    have "0 < length xs" using Suc.prems by (cases xs) simp_all
    then show ?thesis using d by (auto simp: draw_def split: list.splits)
  qed
  have "k \<le> length (take i xs @ drop (Suc i) xs)" using Suc.prems i by simp
  from Suc.IH[OF this, of g1] show ?case
    by (simp add: d split_beta)
qed

lemma nth_without:
  assumes "i < length xs" and "j < length xs - 1"
  shows "(take i xs @ drop (Suc i) xs) ! j = xs ! (if j < i then j else Suc j)"
  using assms by (auto simp: nth_append min_def)

lemma sample_loop_picked:
  "k \<le> length xs \<Longrightarrow> picked_from (fst (sample_loop g xs k)) xs"
proof (induction k arbitrary: g xs)
  case 0
  then show ?case by simp
next
  case (Suc k)
  obtain i g1 where d: "draw g (length xs) = (i, g1)" by (cases "draw g (length xs)")
  have i: "i < length xs"
  proof -
    have "0 < length xs" using Suc.prems by (cases xs) simp_all
    then show ?thesis using d by (auto simp: draw_def split: list.splits)
  qed
  let ?xs' = "take i xs @ drop (Suc i) xs"
  have len: "length ?xs' = length xs - 1" using i by simp
  have "k \<le> length ?xs'" using Suc.prems i by simp
  from Suc.IH[OF this, of g1] obtain js where
    js: "fst (sample_loop g1 ?xs' k) = map ((!) ?xs') js" "distinct js"
        "\<forall>j\<in>set js. j < length ?xs'"
    by (auto simp: picked_from_def)
  let ?up = "\<lambda>j. if j < i then j else Suc j"
  have m: "map ((!) ?xs') js = map ((!) xs) (map ?up js)"
    using js(3) i len by (simp add: nth_without)
  have inj: "inj_on ?up (set js)" by (auto simp: inj_on_def split: if_splits)
  have d1: "distinct (map ?up js)" using js(2) inj by (simp add: distinct_map)
  have d2: "i \<notin> set (map ?up js)" by (auto split: if_splits)
  have b: "\<forall>j\<in>set (i # map ?up js). j < length xs"
    using js(3) i len by (auto split: if_splits)
  have "fst (sample_loop g xs (Suc k)) = map ((!) xs) (i # map ?up js)"
    using js(1) m by (simp add: d split_beta)
  moreover have "distinct (i # map ?up js)" using d1 d2 by simp
  ultimately show ?case using b unfolding picked_from_def by blast
qed

lemma py_sample_picked:
  assumes "0 \<le> k" "k \<le> int (length xs)"
  shows "\<exists>ys g1. py_sample g xs k = Inr (ys, g1) \<and> int (length ys) = k \<and> picked_from ys xs"
proof -
  have n: "nat k \<le> length xs" using assms by linarith
  obtain ys g1 where s: "sample_loop g xs (nat k) = (ys, g1)" by (cases "sample_loop g xs (nat k)")
  have "length ys = nat k" using sample_loop_length[OF n, of g] s by simp
  moreover have "picked_from ys xs" using sample_loop_picked[OF n, of g] s by simp
  ultimately show ?thesis using assms s by (auto simp: py_sample_def)
qed

lemma served_before_simps [simp]:
  "served_before gs 0 = 0"
  "served_before (a # gs) (Suc i) = (if snd a \<noteq> [] then 1 else 0) + served_before gs i"
  by (simp_all add: served_before_def)

lemma balanced_pass_shape:
  assumes "0 \<le> fpf" "0 \<le> rem"
  shows "\<exists>picks g1.
      balanced_pass g fpf rem gs = Inr (concat picks, g1)
    \<and> length picks = length gs
    \<and> (\<forall>i < length gs.
          picked_from (picks ! i) (snd (gs ! i))
        \<and> int (length (picks ! i))
            = min (fpf + (if int (served_before gs i) < rem then 1 else 0))
                (int (length (snd (gs ! i)))))
    \<and> int (length (filter (\<lambda>p. fpf < int (length p)) picks)) \<le> rem
    \<and> int (length (concat picks)) \<le> fpf * int (length gs) + min rem (int (length gs))"
  using assms(2)
proof (induction gs arbitrary: g rem)
  case Nil
  then show ?case by simp
next
  case (Cons a gs)
  obtain folder files where a: "a = (folder, files)" by (cases a)
  show ?case
  proof (cases "files = []")
    case True
    from Cons.IH[OF Cons.prems, of g] obtain picks g1 where
      r: "balanced_pass g fpf rem gs = Inr (concat picks, g1)"
      and l: "length picks = length gs"
      and each: "\<forall>i < length gs.
          picked_from (picks ! i) (snd (gs ! i))
        \<and> int (length (picks ! i))
            = min (fpf + (if int (served_before gs i) < rem then 1 else 0))
                (int (length (snd (gs ! i))))"
      and extra: "int (length (filter (\<lambda>p. fpf < int (length p)) picks)) \<le> rem"
      and tot: "int (length (concat picks)) \<le> fpf * int (length gs) + min rem (int (length gs))"
      by blast
    let ?picks = "[] # picks"
    have "balanced_pass g fpf rem (a # gs) = Inr (concat ?picks, g1)"
      using True r by (simp add: a)
    moreover have "length ?picks = length (a # gs)" using l by simp
    moreover have "\<forall>i < length (a # gs).
          picked_from (?picks ! i) (snd ((a # gs) ! i))
        \<and> int (length (?picks ! i))
            = min (fpf + (if int (served_before (a # gs) i) < rem then 1 else 0))
                (int (length (snd ((a # gs) ! i))))"
    proof (intro allI impI)
      fix i assume "i < length (a # gs)"
      then show "
          picked_from (?picks ! i) (snd ((a # gs) ! i))
        \<and> int (length (?picks ! i))
            = min (fpf + (if int (served_before (a # gs) i) < rem then 1 else 0))
                (int (length (snd ((a # gs) ! i))))"
        using each True assms(1) by (cases i) (auto simp: a)
    qed
    moreover have "int (length (filter (\<lambda>p. fpf < int (length p)) ?picks)) \<le> rem"
      using extra assms(1) by simp
    moreover have "int (length (concat ?picks)) \<le> fpf * int (length (a # gs)) + min rem (int (length (a # gs)))"
      using tot assms(1) by (simp add: algebra_simps min_def split: if_splits)
    ultimately show ?thesis by blast
  next
    case False
    let ?take = "min (fpf + (if 0 < rem then 1 else 0)) (int (length files))"
    let ?rem' = "if 0 < rem then rem - 1 else rem"
    have t0: "0 \<le> ?take" using assms(1) by simp
    have t1: "?take \<le> int (length files)" by simp
    from py_sample_picked[OF t0 t1, of g] obtain picked g0 where
      s: "py_sample g files ?take = Inr (picked, g0)"
      and sl: "int (length picked) = ?take" and ss: "picked_from picked files" by blast
    have rem': "0 \<le> ?rem'" using Cons.prems by simp
    from Cons.IH[OF rem', of g0] obtain picks g1 where
      r: "balanced_pass g0 fpf ?rem' gs = Inr (concat picks, g1)"
      and l: "length picks = length gs"
      and each: "\<forall>i < length gs.
          picked_from (picks ! i) (snd (gs ! i))
        \<and> int (length (picks ! i))
            = min (fpf + (if int (served_before gs i) < ?rem' then 1 else 0))
                (int (length (snd (gs ! i))))"
      and extra: "int (length (filter (\<lambda>p. fpf < int (length p)) picks)) \<le> ?rem'"
      and tot: "int (length (concat picks)) \<le> fpf * int (length gs) + min ?rem' (int (length gs))"
      by blast
    let ?picks = "picked # picks"
    have "balanced_pass g fpf rem (a # gs) = Inr (concat ?picks, g1)"
      using False s r by (simp add: a exc_bind_def)
    moreover have "length ?picks = length (a # gs)" using l by simp
    moreover have "\<forall>i < length (a # gs).
          picked_from (?picks ! i) (snd ((a # gs) ! i))
        \<and> int (length (?picks ! i))
            = min (fpf + (if int (served_before (a # gs) i) < rem then 1 else 0))
                (int (length (snd ((a # gs) ! i))))"
    proof (intro allI impI)
      fix i assume i: "i < length (a # gs)"
      show "
          picked_from (?picks ! i) (snd ((a # gs) ! i))
        \<and> int (length (?picks ! i))
            = min (fpf + (if int (served_before (a # gs) i) < rem then 1 else 0))
                (int (length (snd ((a # gs) ! i))))"
      proof (cases i)
        case 0
        then show ?thesis using ss sl by (simp add: a)
      next
        case (Suc j)
        then have j: "j < length gs" using i by simp
        have "(int (served_before gs j) < ?rem') = (int (Suc (served_before gs j)) < rem)"
          using Cons.prems by auto
        then show ?thesis using each j False Suc by (simp add: a)
      qed
    qed
    moreover have "int (length (filter (\<lambda>p. fpf < int (length p)) ?picks)) \<le> rem"
    proof (cases "0 < rem")
      case True
      then show ?thesis using extra by simp
    next
      case False
      then have "rem = 0" using Cons.prems by simp
      then have "\<not> fpf < int (length picked)" using sl by simp
      then show ?thesis using extra False by simp
    qed
    moreover have "int (length (concat ?picks)) \<le> fpf * int (length (a # gs)) + min rem (int (length (a # gs)))"
      using tot sl Cons.prems by (auto simp: algebra_simps min_def split: if_splits)
    ultimately show ?thesis by blast
  qed
qed

lemma top_up_shape:
  "\<exists>additional g2.
      top_up g1 all_files_data n s = Inr (s @ additional, g2)
    \<and> picked_from additional (filter (\<lambda>f. f \<notin> set s) all_files_data)
    \<and> int (length additional)
        = (if int (length s) < n
           then min (n - int (length s)) (int (length (filter (\<lambda>f. f \<notin> set s) all_files_data)))
           else 0)"
proof (cases "int (length s) < n \<and> filter (\<lambda>f. f \<notin> set s) all_files_data \<noteq> []")
  case True
  let ?rest = "filter (\<lambda>f. f \<notin> set s) all_files_data"
  let ?k = "min (n - int (length s)) (int (length ?rest))"
  have "0 \<le> ?k" "?k \<le> int (length ?rest)" using True by simp_all
  from py_sample_picked[OF this, of g1] obtain ys g2 where
    y: "py_sample g1 ?rest ?k = Inr (ys, g2)" "int (length ys) = ?k" "picked_from ys ?rest" by blast
  have "top_up g1 all_files_data n s = Inr (s @ ys, g2)"
    using True y(1) by (simp add: top_up_def exc_bind_def Let_def)
  then show ?thesis using y(2,3) True by (intro exI[of _ ys] exI[of _ g2]) simp
next
  case False
  then have "top_up g1 all_files_data n s = Inr (s @ [], g1)"
    by (auto simp: top_up_def Let_def)
  moreover have "int (length ([]::file_info list))
        = (if int (length s) < n
           then min (n - int (length s)) (int (length (filter (\<lambda>f. f \<notin> set s) all_files_data)))
           else 0)"
    using False by auto
  ultimately show ?thesis by (intro exI[of _ "[]"] exI[of _ g1]) simp
qed

lemma sample_loop_numeral:
  "sample_loop g xs (numeral v) =
     (let (i, g1) = draw g (length xs);
          (ys, g2) = sample_loop g1 (take i xs @ drop (Suc i) xs) (pred_numeral v)
      in (xs ! i # ys, g2))"
  by (simp add: numeral_eq_Suc)

subsection \<open>Balanced selection by count\<close>

text \<open>
  Claim C5, as amended. For a requested count \<open>n\<close> with \<open>0 \<le> n\<close> that does not exceed the
  number of available entries, and \<open>N > 0\<close> source folders of which \<^verbatim>\<open>folder_files\<close>
  holds at most \<open>N\<close>, balanced selection by count succeeds and returns the picks of the
  first pass, folder by folder, followed by the entries the top-up adds.

  First pass: from the \<open>i\<close>-th folder it takes entries at pairwise different positions of
  that folder's own pool, exactly \<open>min (n div N + 1) pool\<close> many when fewer than
  \<open>n mod N\<close> folders with a non-empty pool come before it and \<open>min (n div N) pool\<close> many
  otherwise, where \<open>pool\<close> is the size of the pool (so an empty or small folder gives fewer
  than \<open>n div N\<close>); hence each folder gives \<open>min (n div N) pool\<close> or
  \<open>min (n div N + 1) pool\<close> entries, at most \<open>n mod N\<close> folders give more than
  \<open>n div N\<close>, and the first pass selects at most \<open>n\<close> entries.

  Top-up: the added entries stand at pairwise different positions of the list of those
  available entries that the first pass did not select, whatever their folder; when the
  first pass selected fewer than \<open>n\<close> entries their number is the smaller of the
  shortfall and the number of entries not yet selected, otherwise nothing is added.
  The whole selection has at most \<open>n\<close> entries. Nothing is said per folder after the
  top-up.
\<close>

theorem balanced_by_count_first_pass_and_total:
  assumes "0 \<le> n" and "n \<le> int (length all_files_data)"
    and "0 < N" and "length folder_files \<le> N"
  shows "\<exists>picks g1 additional g2.
      balanced_pass g (n div int N) (n mod int N) folder_files = Inr (concat picks, g1)
    \<and> length picks = length folder_files
    \<and> (\<forall>i < length folder_files.
          picked_from (picks ! i) (snd (folder_files ! i))
        \<and> set (picks ! i) \<subseteq> set (snd (folder_files ! i))
        \<and> int (length (picks ! i))
            = min (n div int N + (if int (served_before folder_files i) < n mod int N then 1 else 0))
                (int (length (snd (folder_files ! i))))
        \<and> (int (length (picks ! i)) = min (n div int N) (int (length (snd (folder_files ! i))))
           \<or> int (length (picks ! i)) = min (n div int N + 1) (int (length (snd (folder_files ! i))))))
    \<and> int (length (filter (\<lambda>p. n div int N < int (length p)) picks)) \<le> n mod int N
    \<and> int (length (concat picks)) \<le> n
    \<and> select_by_count g N folder_files all_files_data n True
        = Inr (concat picks @ additional, g2)
    \<and> picked_from additional (filter (\<lambda>f. f \<notin> set (concat picks)) all_files_data)
    \<and> set additional \<subseteq> {f \<in> set all_files_data. f \<notin> set (concat picks)}
    \<and> int (length additional)
        = (if int (length (concat picks)) < n
           then min (n - int (length (concat picks)))
                  (int (length (filter (\<lambda>f. f \<notin> set (concat picks)) all_files_data)))
           else 0)
    \<and> int (length (concat picks @ additional)) \<le> n"
proof -
  let ?b = "n div int N" and ?r = "n mod int N"
  have b: "0 \<le> ?b" using assms(1,3) by (simp add: pos_imp_zdiv_nonneg_iff)
  have r: "0 \<le> ?r" using assms(3) by simp
  from balanced_pass_shape[OF b r, of g folder_files] obtain picks g1 where
    p: "balanced_pass g ?b ?r folder_files = Inr (concat picks, g1)"
    and l: "length picks = length folder_files"
    and each: "\<forall>i < length folder_files.
          picked_from (picks ! i) (snd (folder_files ! i))
        \<and> int (length (picks ! i))
            = min (?b + (if int (served_before folder_files i) < ?r then 1 else 0))
                (int (length (snd (folder_files ! i))))"
    and extra: "int (length (filter (\<lambda>p. ?b < int (length p)) picks)) \<le> ?r"
    and tot: "int (length (concat picks))
        \<le> ?b * int (length folder_files) + min ?r (int (length folder_files))"
    by blast
  have each': "\<forall>i < length folder_files.
          picked_from (picks ! i) (snd (folder_files ! i))
        \<and> set (picks ! i) \<subseteq> set (snd (folder_files ! i))
        \<and> int (length (picks ! i))
            = min (?b + (if int (served_before folder_files i) < ?r then 1 else 0))
                (int (length (snd (folder_files ! i))))
        \<and> (int (length (picks ! i)) = min ?b (int (length (snd (folder_files ! i))))
           \<or> int (length (picks ! i)) = min (?b + 1) (int (length (snd (folder_files ! i)))))"
  proof (intro allI impI)
    fix i assume "i < length folder_files"
    with each have e: "picked_from (picks ! i) (snd (folder_files ! i))"
      "int (length (picks ! i))
            = min (?b + (if int (served_before folder_files i) < ?r then 1 else 0))
                (int (length (snd (folder_files ! i))))" by simp_all
    have "int (length (picks ! i)) = min ?b (int (length (snd (folder_files ! i))))
           \<or> int (length (picks ! i)) = min (?b + 1) (int (length (snd (folder_files ! i))))"
      using e(2) by (cases "int (served_before folder_files i) < ?r") simp_all
    with e picked_from_subset[OF e(1)]
    show "picked_from (picks ! i) (snd (folder_files ! i))
        \<and> set (picks ! i) \<subseteq> set (snd (folder_files ! i))
        \<and> int (length (picks ! i))
            = min (?b + (if int (served_before folder_files i) < ?r then 1 else 0))
                (int (length (snd (folder_files ! i))))
        \<and> (int (length (picks ! i)) = min ?b (int (length (snd (folder_files ! i))))
           \<or> int (length (picks ! i)) = min (?b + 1) (int (length (snd (folder_files ! i)))))"
      by blast
  qed
  have "?b * int (length folder_files) \<le> ?b * int N"
    using b assms(4) by (simp add: mult_left_mono)
  moreover have "?b * int N + ?r = n" by simp
  ultimately have tn: "int (length (concat picks)) \<le> n" using tot by linarith
  let ?rest = "filter (\<lambda>f. f \<notin> set (concat picks)) all_files_data"
  from top_up_shape[of g1 all_files_data n "concat picks"] obtain additional g2 where
    t: "top_up g1 all_files_data n (concat picks) = Inr (concat picks @ additional, g2)"
    and tp: "picked_from additional ?rest"
    and tl: "int (length additional)
        = (if int (length (concat picks)) < n
           then min (n - int (length (concat picks))) (int (length ?rest))
           else 0)" by blast
  have ts: "set additional \<subseteq> {f \<in> set all_files_data. f \<notin> set (concat picks)}"
    using picked_from_subset[OF tp] by auto
  have tt: "int (length (concat picks @ additional)) \<le> n"
    using tl tn by (simp split: if_splits)
  have s: "select_by_count g N folder_files all_files_data n True
        = Inr (concat picks @ additional, g2)"
    using assms(2,3) p t by (simp add: select_by_count_def exc_bind_def)
  from p l each' extra tn s tp ts tl tt show ?thesis by blast
qed

text \<open>The theorem at two folders with pools of 4 and 1 entries and \<open>n = 5\<close>: the shares are
  3 and 2, the second folder gives its only entry, and the top-up adds the entry of the
  first folder that is left.\<close>

theorem balanced_by_count_witness:
  "\<exists>picks g1 additional g2.
      balanced_pass [] (5 div int 2) (5 mod int 2) example_folder_files = Inr (concat picks, g1)
    \<and> picks = [[example_entry [''A'', ''a1.jpg''] 1, example_entry [''A'', ''a2.jpg''] 2,
                 example_entry [''A'', ''a3.jpg''] 3], [example_entry [''B'', ''b1.png''] 5]]
    \<and> select_by_count [] 2 example_folder_files example_all_files 5 True
        = Inr (concat picks @ additional, g2)
    \<and> additional = [example_entry [''A'', ''a4.jpg''] 4]
    \<and> picked_from additional (filter (\<lambda>f. f \<notin> set (concat picks)) example_all_files)"
proof -
  have a: "(0::int) \<le> 5" "5 \<le> int (length example_all_files)" "0 < (2::nat)"
    "length example_folder_files \<le> 2"
    by (simp_all add: example_all_files_def example_folder_files_def)
  from balanced_by_count_first_pass_and_total[OF a, of "[]"]
  obtain picks g1 additional g2 where
      p: "balanced_pass [] (5 div int 2) (5 mod int 2) example_folder_files = Inr (concat picks, g1)"
      and l: "length picks = length example_folder_files"
      and s: "select_by_count [] 2 example_folder_files example_all_files 5 True
        = Inr (concat picks @ additional, g2)"
      and f: "picked_from additional (filter (\<lambda>f. f \<notin> set (concat picks)) example_all_files)"
      and e: "\<forall>i < length example_folder_files.
          int (length (picks ! i))
            = min (5 div int 2 + (if int (served_before example_folder_files i) < 5 mod int 2 then 1 else 0))
                (int (length (snd (example_folder_files ! i))))"
    by blast
  obtain p0 p1 where pk: "picks = [p0, p1]"
    using l by (auto simp: example_folder_files_def length_Suc_conv)
  have l0: "length p0 = 3" using e[rule_format, of 0] pk
    by (simp add: example_folder_files_def)
  have l1: "length p1 = 1" using e[rule_format, of 1] pk
    by (simp add: example_folder_files_def served_before_def)
  have v: "balanced_pass [] (5 div int 2) (5 mod int 2) example_folder_files
      = Inr ([example_entry [''A'', ''a1.jpg''] 1, example_entry [''A'', ''a2.jpg''] 2,
              example_entry [''A'', ''a3.jpg''] 3, example_entry [''B'', ''b1.png''] 5], [])"
    by (simp add: example_folder_files_def select_eval exc_bind_def sample_loop_numeral)
  have c: "p0 @ p1 = [example_entry [''A'', ''a1.jpg''] 1, example_entry [''A'', ''a2.jpg''] 2,
              example_entry [''A'', ''a3.jpg''] 3, example_entry [''B'', ''b1.png''] 5]"
    using p v pk by simp
  have p0: "p0 = [example_entry [''A'', ''a1.jpg''] 1, example_entry [''A'', ''a2.jpg''] 2,
                 example_entry [''A'', ''a3.jpg''] 3]"
    using arg_cong[OF c, of "take 3"] l0 by simp
  have p1: "p1 = [example_entry [''B'', ''b1.png''] 5]"
    using arg_cong[OF c, of "drop 3"] l0 by simp
  have w: "select_by_count [] 2 example_folder_files example_all_files 5 True
      = Inr ([example_entry [''A'', ''a1.jpg''] 1, example_entry [''A'', ''a2.jpg''] 2,
              example_entry [''A'', ''a3.jpg''] 3, example_entry [''B'', ''b1.png''] 5,
              example_entry [''A'', ''a4.jpg''] 4], [])"
    by (simp add: example_folder_files_def example_all_files_def select_eval exc_bind_def
        example_entry_def sample_loop_numeral)
  have ad: "additional = [example_entry [''A'', ''a4.jpg''] 4]"
    using s w pk p0 p1 by simp
  from p s f pk p0 p1 ad show ?thesis by blast
qed

text \<open>
  Claim C5 as stated fails. Folder A holds five entries, folder B one, and four are
  requested: \<open>4 div 2 = 2\<close> and \<open>4 mod 2 = 0\<close>, so every folder should give 2 entries.
  B gives its only entry, and the top-up then takes a third entry from A.
\<close>

theorem balanced_by_count_capped_and_topped_up:
  "select_by_count [] 2
     [([''A''], [example_entry [''A'', ''a1.jpg''] 1, example_entry [''A'', ''a2.jpg''] 1,
                 example_entry [''A'', ''a3.jpg''] 1, example_entry [''A'', ''a4.jpg''] 1,
                 example_entry [''A'', ''a5.jpg''] 1]),
      ([''B''], [example_entry [''B'', ''b1.jpg''] 1])]
     [example_entry [''A'', ''a1.jpg''] 1, example_entry [''A'', ''a2.jpg''] 1,
      example_entry [''A'', ''a3.jpg''] 1, example_entry [''A'', ''a4.jpg''] 1,
      example_entry [''A'', ''a5.jpg''] 1, example_entry [''B'', ''b1.jpg''] 1] 4 True
   = Inr ([example_entry [''A'', ''a1.jpg''] 1, example_entry [''A'', ''a2.jpg''] 1,
           example_entry [''B'', ''b1.jpg''] 1, example_entry [''A'', ''a3.jpg''] 1], [])
   \<and> (4::int) div 2 = 2 \<and> (4::int) mod 2 = 0"
  by (simp add: select_eval exc_bind_def example_entry_def sample_loop_numeral)

subsection \<open>Balanced selection by size\<close>




section \<open>Results on the file system and the copy tasks\<close>

subsection \<open>Effects of the file operations\<close>

lemma is_file_contents: "is_file fs p = (contents fs p \<noteq> None)"
  by (simp add: is_file_def contents_def)

lemma path_exists_contents: "path_exists fs p = (contents fs p \<noteq> None \<or> is_dir fs p)"
  by (simp add: path_exists_def is_file_contents)

lemma map_of_al_update: "map_of (al_update k v al) = (map_of al)(k \<mapsto> v)"
  by (induction al) (auto simp: fun_eq_iff)

lemma map_of_snoc:
  "map_of (al @ [(k, v)]) x
     = (case map_of al x of None \<Rightarrow> (if x = k then Some v else None) | Some y \<Rightarrow> Some y)"
  by (simp add: map_add_def split: option.splits)

lemma map_of_retag:
  "map_of (map (\<lambda>(q, n). if q = p then (q, f n) else (q, n)) al) q
     = map_option (\<lambda>n. if q = p then f n else n) (map_of al q)"
  by (induction al) auto

lemma tick_simps [simp]:
  "file_nodes (tick fs) = file_nodes fs" "dir_nodes (tick fs) = dir_nodes fs"
  by (simp_all add: tick_def)

lemma touch_dir_files [simp]: "file_nodes (touch_dir fs p) = file_nodes fs"
  by (simp add: touch_dir_def)

lemma touch_dir_keys [simp]: "map fst (dir_nodes (touch_dir fs p)) = map fst (dir_nodes fs)"
  by (simp add: touch_dir_def comp_def split_beta if_distrib[of fst] cong: if_cong)

lemma touch_dir_keyset [simp]:
  "fst ` set (dir_nodes (touch_dir fs p)) = fst ` set (dir_nodes fs)"
  using arg_cong[OF touch_dir_keys[of fs p], of set] by (simp only: set_map)

lemma is_dir_keys: "is_dir fs p = (p = [] \<or> p \<in> fst ` set (dir_nodes fs))"
  by (auto simp: is_dir_def map_of_eq_None_iff)

lemma touch_dir_is_dir [simp]: "is_dir (touch_dir fs p) q = is_dir fs q"
  by (simp add: is_dir_keys)

lemma touch_dir_contents [simp]: "contents (touch_dir fs p) = contents fs"
  by (simp add: contents_def fun_eq_iff)

lemma make_dir_files [simp]: "file_nodes (make_dir fs p) = file_nodes fs"
  by (simp add: make_dir_def Let_def)

lemma make_dir_is_dir [simp]: "is_dir (make_dir fs p) q = (q = p \<or> is_dir fs q)"
  by (auto simp: make_dir_def Let_def is_dir_keys)

lemma mkdir_exist_ok_effect:
  assumes "mkdir_exist_ok fs p = Inr fs'"
  shows "file_nodes fs' = file_nodes fs" "is_dir fs' q = (q = p \<or> is_dir fs q)"
    "is_dir fs p \<Longrightarrow> fs' = fs" "is_dir fs p \<or> \<not> is_file fs p"
  using assms by (auto simp: mkdir_exist_ok_def split: if_splits)

lemma mkdir_parents_files: "mkdir_parents fs p = Inr fs' \<Longrightarrow> file_nodes fs' = file_nodes fs"
proof (induction fs p arbitrary: fs' rule: mkdir_parents.induct)
  case (1 fs p)
  show ?case
  proof (cases "is_dir fs p \<or> is_file fs p \<or> is_dir fs (parent p) \<or> is_file fs (parent p)")
    case True
    then show ?thesis using "1.prems"
      by (subst (asm) mkdir_parents.simps) (auto split: if_splits)
  next
    case False
    with "1.prems" obtain fs1 where a: "mkdir_parents fs (parent p) = Inr fs1"
      and b: "mkdir_exist_ok fs1 p = Inr fs'"
      by (subst (asm) mkdir_parents.simps) (auto simp: exc_bind_def split: sum.splits)
    from "1.IH"[OF _ _ _ _ a] False have "file_nodes fs1 = file_nodes fs" by simp
    with mkdir_exist_ok_effect(1)[OF b] show ?thesis by simp
  qed
qed

lemma mkdir_parents_dirs:
  "mkdir_parents fs p = Inr fs' \<Longrightarrow>
     is_dir fs' p \<and> (\<forall>q. is_dir fs q \<longrightarrow> is_dir fs' q)
   \<and> (\<forall>q. is_dir fs' q \<longrightarrow> is_dir fs q \<or> \<not> is_file fs q)"
proof (induction fs p arbitrary: fs' rule: mkdir_parents.induct)
  case (1 fs p)
  show ?case
  proof (cases "is_dir fs p \<or> is_file fs p \<or> is_dir fs (parent p) \<or> is_file fs (parent p)")
    case True
    then show ?thesis using "1.prems"
      by (subst (asm) mkdir_parents.simps) (auto split: if_splits)
  next
    case False
    with "1.prems" obtain fs1 where a: "mkdir_parents fs (parent p) = Inr fs1"
      and b: "mkdir_exist_ok fs1 p = Inr fs'"
      by (subst (asm) mkdir_parents.simps) (auto simp: exc_bind_def split: sum.splits)
    from "1.IH"[OF _ _ _ _ a] False
    have ih: "is_dir fs1 (parent p)" "\<forall>q. is_dir fs q \<longrightarrow> is_dir fs1 q"
      "\<forall>q. is_dir fs1 q \<longrightarrow> is_dir fs q \<or> \<not> is_file fs q" by simp_all
    have f: "file_nodes fs1 = file_nodes fs" using a by (rule mkdir_parents_files)
    have nf: "\<not> is_file fs p" using False by simp
    show ?thesis
      using mkdir_exist_ok_effect(2)[OF b] ih nf by auto
  qed
qed

lemma mkdir_parents_noop: "is_dir fs p \<Longrightarrow> mkdir_parents fs p = Inr fs"
  by (subst mkdir_parents.simps) simp

lemma is_dir_cong:
  "fst ` set (dir_nodes fs') = fst ` set (dir_nodes fs) \<Longrightarrow> is_dir fs' q = is_dir fs q"
  by (simp add: is_dir_keys)

lemma write_file_effect:
  assumes "write_file fs p c n = Inr fs'"
  shows "contents fs' = (contents fs)(p \<mapsto> c)" "is_dir fs' q = is_dir fs q" "\<not> is_dir fs p"
proof -
  show nd: "\<not> is_dir fs p" using assms by (auto simp: write_file_def split: if_splits)
  show "contents fs' = (contents fs)(p \<mapsto> c)" "is_dir fs' q = is_dir fs q"
  proof (atomize (full), cases "map_of (file_nodes fs) p")
    case None
    with assms nd have e: "fs' = tick ((touch_dir fs (parent p))\<lparr>file_nodes :=
        file_nodes (touch_dir fs (parent p)) @
          [(p, \<lparr>payload = c, st_size = n, st_ctime = clock (touch_dir fs (parent p)),
                st_mtime = clock (touch_dir fs (parent p))\<rparr>)]\<rparr>)"
      by (simp add: write_file_def Let_def split: if_splits)
    have k: "fst ` set (dir_nodes fs') = fst ` set (dir_nodes fs)" by (simp add: e)
    have "contents fs' = (contents fs)(p \<mapsto> c)"
      using None by (auto simp: e contents_def map_of_snoc fun_eq_iff simp del: map_of_append
          split: option.splits)
    with is_dir_cong[OF k] show "contents fs' = (contents fs)(p \<mapsto> c) \<and> is_dir fs' q = is_dir fs q"
      by simp
  next
    case (Some old)
    with assms nd have e: "fs' = tick (fs\<lparr>file_nodes :=
        al_update p (old\<lparr>payload := c, st_size := n, st_ctime := clock fs,
                         st_mtime := clock fs\<rparr>) (file_nodes fs)\<rparr>)"
      by (simp add: write_file_def)
    have k: "fst ` set (dir_nodes fs') = fst ` set (dir_nodes fs)" by (simp add: e)
    have "contents fs' = (contents fs)(p \<mapsto> c)"
      by (simp add: e contents_def map_of_al_update fun_eq_iff)
    with is_dir_cong[OF k] show "contents fs' = (contents fs)(p \<mapsto> c) \<and> is_dir fs' q = is_dir fs q"
      by simp
  qed
qed

lemma retime_payload:
  "map_option payload
     (map_of (map (\<lambda>(q, n). if q = p then (q, n\<lparr>st_mtime := t\<rparr>) else (q, n)) al) x)
   = map_option payload (map_of al x)"
proof (induction al)
  case Nil
  then show ?case by simp
next
  case (Cons a al)
  obtain q n where a: "a = (q, n)" by (cases a)
  show ?case using Cons.IH by (cases "q = p") (simp_all add: a)
qed

lemma set_mtime_effect [simp]:
  "contents (set_mtime fs p t) = contents fs" "is_dir (set_mtime fs p t) q = is_dir fs q"
  by (simp_all add: set_mtime_def contents_def fun_eq_iff retime_payload is_dir_def)

lemma copy2_effect:
  assumes "copy2 fs src dst = Inr fs'" and "\<not> is_dir fs dst"
  shows "\<exists>c. contents fs src = Some c \<and> contents fs' = (contents fs)(dst \<mapsto> c)"
    "is_dir fs' q = is_dir fs q"
proof -
  from assms obtain node fs1 where n: "map_of (file_nodes fs) src = Some node"
    and w: "write_file fs dst (payload node) (st_size node) = Inr fs1"
    and e: "fs' = set_mtime fs1 dst (st_mtime node)"
    by (auto simp: copy2_def exc_bind_def split: option.splits if_splits sum.splits)
  have "contents fs src = Some (payload node)" using n by (simp add: contents_def)
  then show "\<exists>c. contents fs src = Some c \<and> contents fs' = (contents fs)(dst \<mapsto> c)"
    using write_file_effect(1)[OF w] e by simp
  show "is_dir fs' q = is_dir fs q" using write_file_effect(2)[OF w] e by simp
qed

lemma copy2_succeeds:
  assumes "contents fs src = Some c" and "\<not> path_exists fs dst" and "is_dir fs (parent dst)"
  shows "\<exists>fs'. copy2 fs src dst = Inr fs'"
proof -
  from assms(1) obtain node where n: "map_of (file_nodes fs) src = Some node"
    by (auto simp: contents_def)
  have nd: "\<not> is_dir fs dst" "map_of (file_nodes fs) dst = None"
    using assms(2) by (auto simp: path_exists_def is_file_def)
  have "dst \<noteq> src" using n nd by auto
  then show ?thesis using n nd assms(3)
    by (simp add: copy2_def exc_bind_def write_file_def Let_def)
qed

subsection \<open>Destination paths, unused names and one copy task\<close>

lemma grows_refl [simp]: "grows fs fs"
  by (simp add: grows_def)

lemma grows_trans: "grows a b \<Longrightarrow> grows b c \<Longrightarrow> grows a c"
  by (simp add: grows_def)

lemma grows_dirs_only:
  "contents fs' = contents fs \<Longrightarrow> (\<And>q. is_dir fs q \<Longrightarrow> is_dir fs' q) \<Longrightarrow> grows fs fs'"
  by (simp add: grows_def path_exists_contents)

lemma contents_of_files: "file_nodes fs' = file_nodes fs \<Longrightarrow> contents fs' = contents fs"
  by (simp add: contents_def fun_eq_iff)

lemma subfolder_ok_grows: "grows fs fs' \<Longrightarrow> subfolder_ok fs p d ps sel \<Longrightarrow> subfolder_ok fs' p d ps sel"
  by (simp add: grows_def subfolder_ok_def)

lemma gdp_noop:
  "subfolder_ok fs fp dst ps sel \<Longrightarrow>
   get_destination_path fs fp dst ps sel = (fs, Inr (destination_of fp dst ps sel))"
  by (auto simp: get_destination_path_def subfolder_ok_def mkdir_exist_ok_def)

lemma gdp_effect:
  assumes "get_destination_path fs fp dst ps sel = (fs', r)"
  shows "contents fs' = contents fs" "grows fs fs'"
    "r = Inr d \<Longrightarrow> d = destination_of fp dst ps sel \<and> subfolder_ok fs' fp dst ps sel"
proof -
  show c: "contents fs' = contents fs"
    using assms
    by (auto simp: get_destination_path_def split: if_splits sum.splits
        dest: mkdir_exist_ok_effect(1) intro: contents_of_files)
  have "\<And>q. is_dir fs q \<Longrightarrow> is_dir fs' q"
    using assms
    by (auto simp: get_destination_path_def split: if_splits sum.splits
        dest: mkdir_exist_ok_effect(2))
  with c show "grows fs fs'" by (rule grows_dirs_only)
  show "r = Inr d \<Longrightarrow> d = destination_of fp dst ps sel \<and> subfolder_ok fs' fp dst ps sel"
    using assms
    by (auto simp: get_destination_path_def subfolder_ok_def split: if_splits sum.splits
        dest: mkdir_exist_ok_effect(2))
qed

lemma parent_joinpath [simp]: "parent (joinpath d n) = d"
  by (simp add: parent_def joinpath_def)

lemma parent_numbered [simp]: "parent (numbered d k) = parent d"
  by (simp add: numbered_def)

lemma next_unused_spec:
  "\<exists>k\<ge>c. next_unused fs d c = numbered d k \<and> \<not> path_exists fs (numbered d k)
      \<and> (\<forall>j. c \<le> j \<and> j < k \<longrightarrow> path_exists fs (numbered d j))"
proof (induction fs d c rule: next_unused.induct)
  case (1 fs d c)
  show ?case
  proof (cases "path_exists fs (numbered d c)")
    case True
    from "1.IH"[OF True] obtain k where k: "Suc c \<le> k" "next_unused fs d (Suc c) = numbered d k"
      "\<not> path_exists fs (numbered d k)" "\<forall>j. Suc c \<le> j \<and> j < k \<longrightarrow> path_exists fs (numbered d j)"
      by blast
    have "\<forall>j. c \<le> j \<and> j < k \<longrightarrow> path_exists fs (numbered d j)"
    proof (intro allI impI)
      fix j assume j: "c \<le> j \<and> j < k"
      show "path_exists fs (numbered d j)"
      proof (cases "j = c")
        case True
        then show ?thesis using \<open>path_exists fs (numbered d c)\<close> by simp
      next
        case False
        then have "Suc c \<le> j \<and> j < k" using j by simp
        then show ?thesis using k(4) by blast
      qed
    qed
    moreover have "next_unused fs d c = numbered d k"
      using True k(2) by (subst next_unused.simps) simp
    moreover have "c \<le> k" using k(1) by simp
    ultimately show ?thesis using k(3) by blast
  next
    case False
    then have "next_unused fs d c = numbered d c" by (subst next_unused.simps) simp
    with False show ?thesis by auto
  qed
qed

lemma unused_name_spec:
  "\<not> path_exists fs (unused_name fs d)
   \<and> (unused_name fs d = d
      \<or> (path_exists fs d
         \<and> (\<exists>k\<ge>1. unused_name fs d = numbered d k
              \<and> (\<forall>j. 1 \<le> j \<and> j < k \<longrightarrow> path_exists fs (numbered d j)))))"
proof (cases "path_exists fs d")
  case True
  from next_unused_spec[of 1 fs d] obtain k where
    "1 \<le> k" "next_unused fs d 1 = numbered d k" "\<not> path_exists fs (numbered d k)"
    "\<forall>j. 1 \<le> j \<and> j < k \<longrightarrow> path_exists fs (numbered d j)" by blast
  then show ?thesis using True unfolding unused_name_def by auto
next
  case False
  then show ?thesis by (simp add: unused_name_def)
qed

lemma parent_unused_name [simp]: "parent (unused_name fs d) = parent d"
  using unused_name_spec[of fs d] by auto

lemma copy_single_file_effect:
  assumes "copy_single_file fs sel dst ps f = (fs', r)"
  shows "grows fs fs'"
    and "r = Inl err \<Longrightarrow> contents fs' = contents fs"
    and "r = Inr d \<Longrightarrow>
           \<not> path_exists fs d
         \<and> (\<exists>c. contents fs (path f) = Some c \<and> contents fs' = (contents fs)(d \<mapsto> c))
         \<and> path_exists fs' (destination_of (path f) dst ps sel)
         \<and> subfolder_ok fs' (path f) dst ps sel
         \<and> (d = destination_of (path f) dst ps sel
            \<or> (\<exists>k\<ge>1. d = numbered (destination_of (path f) dst ps sel) k
                 \<and> (\<forall>j. 1 \<le> j \<and> j < k \<longrightarrow>
                       path_exists fs' (numbered (destination_of (path f) dst ps sel) j))))"
proof -
  let ?d0 = "destination_of (path f) dst ps sel"
  obtain fs1 r1 where g: "get_destination_path fs (path f) dst ps sel = (fs1, r1)"
    by (cases "get_destination_path fs (path f) dst ps sel")
  note ge = gdp_effect[OF g]
  show "grows fs fs'" "r = Inl err \<Longrightarrow> contents fs' = contents fs"
    "r = Inr d \<Longrightarrow>
           \<not> path_exists fs d
         \<and> (\<exists>c. contents fs (path f) = Some c \<and> contents fs' = (contents fs)(d \<mapsto> c))
         \<and> path_exists fs' ?d0
         \<and> subfolder_ok fs' (path f) dst ps sel
         \<and> (d = ?d0
            \<or> (\<exists>k\<ge>1. d = numbered ?d0 k
                 \<and> (\<forall>j. 1 \<le> j \<and> j < k \<longrightarrow> path_exists fs' (numbered ?d0 j))))"
  proof (atomize (full), cases r1)
    case (Inl e)
    then have "fs' = fs1" "r = Inl (path f, e)" using assms g by (simp_all add: copy_single_file_def)
    then show "grows fs fs' \<and> (r = Inl err \<longrightarrow> contents fs' = contents fs) \<and>
      (r = Inr d \<longrightarrow>
           \<not> path_exists fs d
         \<and> (\<exists>c. contents fs (path f) = Some c \<and> contents fs' = (contents fs)(d \<mapsto> c))
         \<and> path_exists fs' ?d0
         \<and> subfolder_ok fs' (path f) dst ps sel
         \<and> (d = ?d0
            \<or> (\<exists>k\<ge>1. d = numbered ?d0 k
                 \<and> (\<forall>j. 1 \<le> j \<and> j < k \<longrightarrow> path_exists fs' (numbered ?d0 j)))))"
      using ge(1,2) by simp
  next
    case (Inr d0)
    then have d0: "d0 = ?d0" and sub1: "subfolder_ok fs1 (path f) dst ps sel"
      using ge(3)[of d0] by simp_all
    show "grows fs fs' \<and> (r = Inl err \<longrightarrow> contents fs' = contents fs) \<and>
      (r = Inr d \<longrightarrow>
           \<not> path_exists fs d
         \<and> (\<exists>c. contents fs (path f) = Some c \<and> contents fs' = (contents fs)(d \<mapsto> c))
         \<and> path_exists fs' ?d0
         \<and> subfolder_ok fs' (path f) dst ps sel
         \<and> (d = ?d0
            \<or> (\<exists>k\<ge>1. d = numbered ?d0 k
                 \<and> (\<forall>j. 1 \<le> j \<and> j < k \<longrightarrow> path_exists fs' (numbered ?d0 j)))))"
    proof (cases "mkdir_parents fs1 (parent ?d0)")
      case (Inl e)
      then have "fs' = fs1" "r = Inl (path f, e)"
        using assms g \<open>r1 = Inr d0\<close> d0 by (simp_all add: copy_single_file_def)
      then show ?thesis using ge(1,2) by simp
    next
      case (Inr fs2)
      have c2: "contents fs2 = contents fs1"
        using mkdir_parents_files[OF Inr] by (rule contents_of_files)
      have g12: "grows fs1 fs2"
        using c2 mkdir_parents_dirs[OF Inr] by (intro grows_dirs_only) auto
      have g02: "grows fs fs2" using ge(2) g12 by (rule grows_trans)
      let ?u = "unused_name fs2 ?d0"
      note us = unused_name_spec[of fs2 ?d0]
      show ?thesis
      proof (cases "copy2 fs2 (path f) ?u")
        case (Inl e)
        then have "fs' = fs2" "r = Inl (path f, e)"
          using assms g \<open>r1 = Inr d0\<close> d0 Inr by (simp_all add: copy_single_file_def)
        then show ?thesis using g02 c2 ge(1) by simp
      next
        case cp: (Inr fs3)
        then have e: "fs' = fs3" "r = Inr ?u"
          using assms g \<open>r1 = Inr d0\<close> d0 Inr by (simp_all add: copy_single_file_def)
        have nd: "\<not> is_dir fs2 ?u" using us by (simp add: path_exists_def)
        from copy2_effect(1)[OF cp nd] obtain c where
          c: "contents fs2 (path f) = Some c" "contents fs3 = (contents fs2)(?u \<mapsto> c)" by blast
        have dir3: "\<And>q. is_dir fs3 q = is_dir fs2 q" using copy2_effect(2)[OF cp nd] .
        have g23: "grows fs2 fs3"
          by (auto simp: grows_def path_exists_contents c(2) dir3)
        have g03: "grows fs fs3" using g02 g23 by (rule grows_trans)
        have nu: "\<not> path_exists fs ?u" using us g02 by (auto simp: grows_def)
        have ex0: "path_exists fs3 ?d0"
          using us g23 by (auto simp: grows_def path_exists_contents c(2))
        have sub3: "subfolder_ok fs3 (path f) dst ps sel"
          using sub1 g12 g23 by (blast intro: subfolder_ok_grows)
        have first: "?u = ?d0
            \<or> (\<exists>k\<ge>1. ?u = numbered ?d0 k
                 \<and> (\<forall>j. 1 \<le> j \<and> j < k \<longrightarrow> path_exists fs3 (numbered ?d0 j)))"
          using us g23 by (auto simp: grows_def)
        have cc: "contents fs (path f) = Some c \<and> contents fs3 = (contents fs)(?u \<mapsto> c)"
          using c c2 ge(1) by simp
        show ?thesis using e g03 nu ex0 sub3 first cc by auto
      qed
    qed
  qed
qed

section \<open>Results on scanning, the selection log and undo\<close>

subsection \<open>Media types of scanned entries\<close>

text \<open>
  Claim C7 fails in the code. The extensions \<^verbatim>\<open>.gif\<close>, \<^verbatim>\<open>.svg\<close>, \<^verbatim>\<open>.ico\<close>,
  \<^verbatim>\<open>.heic\<close> and \<^verbatim>\<open>.heif\<close> are media extensions, so files with them are scanned,
  but \<^verbatim>\<open>get_media_metadata\<close> gives each of them the type \<^verbatim>\<open>other\<close>. A scan of a
  folder that holds \<^verbatim>\<open>a.gif\<close>, \<^verbatim>\<open>b.HEIC\<close> and \<^verbatim>\<open>notes.txt\<close> returns the first
  two as entries of type \<^verbatim>\<open>other\<close>, and a filter on the media type \<^verbatim>\<open>image\<close> drops
  both.
\<close>

theorem scan_classifies_listed_image_formats_as_other:
  "map (\<lambda>e. e \<in> set media_extensions) [''.gif'', ''.svg'', ''.ico'', ''.heic'', ''.heif'']
     = [True, True, True, True, True]
   \<and> map get_media_metadata
       [[''src'', ''a.gif''], [''src'', ''b.svg''], [''src'', ''c.ico''], [''src'', ''d.heic''],
        [''src'', ''e.heif'']]
     = [''other'', ''other'', ''other'', ''other'', ''other'']
   \<and> collect_media_files_optimized example_image_disk [''src''] None False
     = (example_image_disk,
        Inr [\<lparr>path = [''src'', ''a.gif''], fsize = 3, created = 1, modified = 1,
              extension = ''.gif'', mtype = ''other''\<rparr>,
             \<lparr>path = [''src'', ''b.HEIC''], fsize = 4, created = 1, modified = 1,
              extension = ''.heic'', mtype = ''other''\<rparr>])
   \<and> collect_media_files_optimized example_image_disk [''src'']
       (Some (no_filters\<lparr>media_types := Some [''image'']\<rparr>)) False
     = (example_image_disk, Inr [])"
  by code_simp

subsection \<open>The selection log and undo\<close>

text \<open>
  Claim C1 fails in the code. The run copies \<^verbatim>\<open>src/a.jpg\<close> to \<^verbatim>\<open>dst/a.jpg\<close> and
  returns 1. The selection log it writes lists the source path \<^verbatim>\<open>src/a.jpg\<close>, not
  the destination path that was written. The undo that follows deletes one file, the
  original \<^verbatim>\<open>src/a.jpg\<close>, and leaves the copy \<^verbatim>\<open>dst/a.jpg\<close> in place.
\<close>

theorem selection_log_lists_sources_and_undo_deletes_them:
  "randomly_select_and_copy_files example_photo_disk [] example_run = (example_after_run, Inr 1)
   \<and> contents example_photo_disk [''dst'', ''a.jpg''] = None
   \<and> contents example_after_run [''dst'', ''a.jpg''] = Some (Media ''photo'')
   \<and> logged_files example_after_run [''dst''] = [[''src'', ''a.jpg'']]
   \<and> undo_last_operation example_after_run [''dst''] = (example_after_undo, 1, True)
   \<and> contents example_after_undo [''src'', ''a.jpg''] = None
   \<and> contents example_after_undo [''dst'', ''a.jpg''] = Some (Media ''photo'')"
  by code_simp

subsection \<open>Exceptions of the parts of a run\<close>

lemma int_of_float_error: "int_of_float x = Inl e \<Longrightarrow> e = OverflowError \<or> e = ValueError"
  by (cases x) (auto simp: int_of_float_def)

lemma parse_size_loop_error: "parse_size_loop s ms = Some (Inl e) \<Longrightarrow> e = OverflowError"
proof (induction ms)
  case Nil
  then show ?case by simp
next
  case (Cons a ms)
  obtain suffix multiplier where a: "a = (suffix, multiplier)" by (cases a)
  show ?case
  proof (cases "endswith s suffix")
    case True
    with Cons.prems show ?thesis
      by (auto simp: a split: option.splits sum.splits if_splits dest: int_of_float_error)
  next
    case False
    with Cons show ?thesis by (simp add: a)
  qed
qed

lemma parse_size_error: "parse_size s = Inl e \<Longrightarrow> e = OverflowError"
  by (auto simp: parse_size_def parse_size_w_def Let_def
      split: option.splits sum.splits dest: parse_size_loop_error)

lemma apply_filters_error:
  "apply_filters fd flt = Inl e \<Longrightarrow> e = OverflowError \<or> e = ValueError"
  by (auto simp: apply_filters_def filter_min_size_def filter_max_size_def filter_date_from_def
      filter_date_to_def exc_bind_def
      split: option.splits sum.splits if_splits dest: parse_size_error)

lemma collect_error:
  "collect_media_files_optimized fs folder flt uc = (fs', Inl e) \<Longrightarrow> e = OverflowError \<or> e = ValueError"
  by (auto simp: collect_media_files_optimized_def Let_def
      split: option.splits sum.splits if_splits dest: apply_filters_error)

lemma scan_loop_error:
  "scan_loop fs flt uc pooled ff all folders = (fs', Inl e) \<Longrightarrow> e = OverflowError \<or> e = ValueError"
proof (induction folders arbitrary: fs ff all)
  case Nil
  then show ?case by simp
next
  case (Cons folder rest)
  obtain fs1 r1 where c: "collect_media_files_optimized fs folder flt uc = (fs1, r1)"
    by (cases "collect_media_files_optimized fs folder flt uc")
  show ?case
  proof (cases r1)
    case (Inl e1)
    with Cons c collect_error[of fs folder flt uc fs1 e1] show ?thesis
      by (auto split: if_splits)
  next
    case (Inr found)
    with Cons c show ?thesis by auto
  qed
qed

lemma py_sample_error: "py_sample g xs k = Inl e \<Longrightarrow> e = ValueError"
  by (auto simp: py_sample_def split: if_splits)

lemma balanced_pass_error: "balanced_pass g fpf rem gs = Inl e \<Longrightarrow> e = ValueError"
proof (induction gs arbitrary: g rem)
  case Nil
  then show ?case by simp
next
  case (Cons a gs)
  obtain folder files where a: "a = (folder, files)" by (cases a)
  from Cons.prems show ?case
    by (auto simp: a exc_bind_def split: if_splits sum.splits prod.splits
        dest: py_sample_error Cons.IH)
qed

lemma select_by_count_error: "select_by_count g N ff all n b = Inl e \<Longrightarrow> e = ValueError"
  by (auto simp: select_by_count_def top_up_def exc_bind_def Let_def
      split: if_splits sum.splits prod.splits dest: py_sample_error balanced_pass_error)

lemma select_by_total_size_error:
  "select_by_total_size g fd s b = Inl e \<Longrightarrow> fd \<noteq> [] \<Longrightarrow> e = OverflowError"
  using folder_groups_nonempty[of fd]
  by (auto simp: select_by_total_size_def exc_bind_def Let_def
      split: if_splits sum.splits prod.splits dest: parse_size_error)

lemma mkdir_exist_ok_error:
  "mkdir_exist_ok fs p = Inl e \<Longrightarrow> e \<in> {FileExistsError, NotADirectoryError, FileNotFoundError}"
  by (auto simp: mkdir_exist_ok_def split: if_splits)

lemma mkdir_parents_error:
  "mkdir_parents fs p = Inl e \<Longrightarrow> e \<in> {FileExistsError, NotADirectoryError, FileNotFoundError}"
proof (induction fs p rule: mkdir_parents.induct)
  case (1 fs p)
  from "1.prems" show ?case
    apply (subst (asm) mkdir_parents.simps)
    apply (auto simp: exc_bind_def split: if_splits sum.splits dest: mkdir_exist_ok_error)
    using "1.IH" by auto
qed

lemma get_destination_path_error:
  "get_destination_path fs fp dst ps sel = (fs', Inl e)
   \<Longrightarrow> e \<in> {FileExistsError, NotADirectoryError, FileNotFoundError}"
  by (auto simp: get_destination_path_def split: if_splits sum.splits dest: mkdir_exist_ok_error)

lemma remaining_loop_error:
  "remaining_loop fs sel dst ps L xs = (fs', Inl e)
   \<Longrightarrow> e \<in> {FileExistsError, NotADirectoryError, FileNotFoundError}"
proof (induction xs arbitrary: fs fs')
  case Nil
  then show ?case by simp
next
  case (Cons f xs)
  obtain fs1 r1 where g: "get_destination_path fs (path f) dst ps sel = (fs1, r1)"
    by (cases "get_destination_path fs (path f) dst ps sel")
  show ?case
  proof (cases r1)
    case (Inl e1)
    with Cons.prems g get_destination_path_error[of fs "path f" dst ps sel fs1 e1]
    show ?thesis by auto
  next
    case (Inr d)
    obtain fs2 r2 where l: "remaining_loop fs1 sel dst ps L xs = (fs2, r2)"
      by (cases "remaining_loop fs1 sel dst ps L xs")
    with Cons.prems g Inr Cons.IH[of fs1 fs2] show ?thesis
      by (cases r2) auto
  qed
qed

lemma copy_files_parallel_error:
  "copy_files_parallel fs sel dst ps rf = (fs', Inl e)
   \<Longrightarrow> e \<in> {FileExistsError, NotADirectoryError, FileNotFoundError}"
  by (auto simp: copy_files_parallel_def split: sum.splits prod.splits if_splits
      dest: mkdir_parents_error remaining_loop_error)

lemma after_scan_reached:
  assumes "\<not> (\<exists>folder \<in> set (cfg_source_folders cfg). map_of ff folder = None)"
    and "all \<noteq> []"
  shows "after_scan fs g cfg rf ff all =
     (case select_files g cfg ff all of
          Inl e \<Rightarrow> (fs, Inl e)
        | Inr (selected_files, g1) \<Rightarrow>
            if cfg_dry_run cfg then (fs, Inr (length selected_files))
            else
              (case copy_files_parallel fs selected_files (cfg_destination_folder cfg)
                      (cfg_preserve_structure cfg) rf of
                 (fs1, Inl e) \<Rightarrow> (fs1, Inl e)
               | (fs1, Inr (n_copied, errs)) \<Rightarrow>
                   (let fs2 = save_selection_log fs1 selected_files
                                (cfg_destination_folder cfg)
                                (get_file_stats selected_files) (cfg_filters cfg);
                        fs3 = (case rf of
                                 None \<Rightarrow> fs2
                               | Some rf \<Rightarrow>
                                   if path_exists fs2 rf \<and> errs = [] then
                                     (case unlink fs2 rf of Inl e \<Rightarrow> fs2 | Inr fs' \<Rightarrow> fs')
                                   else fs2)
                    in (fs3, Inr n_copied))))"
proof -
  have "(\<exists>folder \<in> set (cfg_source_folders cfg). map_of ff folder = None) = False"
    using assms(1) by simp
  moreover have "(length all = 0) = False" using assms(2) by simp
  ultimately show ?thesis unfolding after_scan_def by (simp only: if_False)
qed

lemma after_scan_error:
  assumes "after_scan fs g cfg rf ff all = (fs', Inl e)"
  shows "e \<noteq> ZeroDivisionError"
proof (cases "(\<exists>folder \<in> set (cfg_source_folders cfg). map_of ff folder = None) \<or> all = []")
  case True
  with assms show ?thesis by (auto simp: after_scan_def split: if_splits)
next
  case False
  then have ne: "all \<noteq> []"
    and nk: "\<not> (\<exists>folder \<in> set (cfg_source_folders cfg). map_of ff folder = None)" by simp_all
  note a = assms[unfolded after_scan_reached[OF nk ne]]
  show ?thesis
  proof (cases "select_files g cfg ff all")
    case (Inl e1)
    then have "e1 = OverflowError \<or> e1 = ValueError"
      using ne by (auto simp: select_files_def split: option.splits
          dest: select_by_total_size_error select_by_count_error)
    moreover have "e = e1" using a Inl by simp
    ultimately show ?thesis by auto
  next
    case (Inr r)
    obtain sel g1 where r: "r = (sel, g1)" by (cases r)
    show ?thesis
    proof (cases "cfg_dry_run cfg")
      case True
      with a Inr r show ?thesis by simp
    next
      case dry: False
      obtain fs1 r1 where c: "copy_files_parallel fs sel (cfg_destination_folder cfg)
                      (cfg_preserve_structure cfg) rf = (fs1, r1)"
        by (cases "copy_files_parallel fs sel (cfg_destination_folder cfg)
                      (cfg_preserve_structure cfg) rf")
      show ?thesis
      proof (cases r1)
        case (Inl e1)
        then have "e = e1" using a Inr r dry c by simp
        with copy_files_parallel_error[of fs sel _ _ rf fs1 e1] c Inl show ?thesis by auto
      next
        case ok: (Inr res)
        with a Inr r dry c show ?thesis
          by (cases res) (simp add: Let_def)
      qed
    qed
  qed
qed

lemma pipeline_error:
  assumes "randomly_select_and_copy_files fs g cfg = (fs', Inl e)"
  shows "e \<noteq> ZeroDivisionError"
proof -
  let ?m = "if \<not> path_exists fs (cfg_destination_folder cfg) \<and> \<not> cfg_dry_run cfg
            then mkdir_parents fs (cfg_destination_folder cfg) else Inr fs"
  show ?thesis
  proof (cases ?m)
    case (Inl e1)
    with assms show ?thesis by (simp add: randomly_select_and_copy_files_def)
  next
    case (Inr fs0)
    obtain fs1 r1 where s: "scan_folders fs0 cfg = (fs1, r1)" by (cases "scan_folders fs0 cfg")
    show ?thesis
    proof (cases r1)
      case (Inl e1)
      then have "e = e1" using assms Inr s by (simp add: randomly_select_and_copy_files_def)
      moreover have "e1 = OverflowError \<or> e1 = ValueError"
        using s Inl by (auto simp: scan_folders_def split: if_splits dest: scan_loop_error)
      ultimately show ?thesis by auto
    next
      case ok: (Inr found)
      obtain ff all where f: "found = (ff, all)" by (cases found)
      from assms Inr s ok f obtain rf where "after_scan fs1 g cfg rf ff all = (fs', Inl e)"
        by (auto simp: randomly_select_and_copy_files_def Let_def)
      then show ?thesis by (rule after_scan_error)
    qed
  qed
qed

lemma select_empty:
  "select_by_total_size g [] s True
     = (case parse_size s of Inl e \<Rightarrow> Inl e | Inr t \<Rightarrow> Inl ZeroDivisionError)"
  by (simp add: select_by_total_size_def exc_bind_def folder_groups_def split: sum.splits)

lemma after_scan_empty:
  "after_scan fs g cfg rf ff []
     = (fs, if \<exists>folder \<in> set (cfg_source_folders cfg). map_of ff folder = None
            then Inl KeyError else Inr 0)"
  by (simp add: after_scan_def)

subsection \<open>The divisor of balanced selection by size\<close>

text \<open>
  Claim C10. Balanced selection by size divides by the number of parent-folder groups.
  For a non-empty entry list this number is the number of distinct parent folders and is
  at least 1, the selection does not raise \<^verbatim>\<open>ZeroDivisionError\<close>, and it returns a
  selection whenever the target string is parsed. On the empty entry list the selection
  raises \<^verbatim>\<open>ZeroDivisionError\<close> as soon as the target string is parsed (an exception of
  \<^verbatim>\<open>parse_size\<close> comes first). The caller returns before the selection when no entry
  was found (with 0, or with the \<^verbatim>\<open>KeyError\<close> of the statistics loop), and a whole run
  never ends with \<^verbatim>\<open>ZeroDivisionError\<close>.
\<close>

theorem balanced_by_size_divisor_at_least_one:
  "(files_data \<noteq> [] \<longrightarrow>
       1 \<le> length (folder_groups files_data)
     \<and> length (folder_groups files_data) = card ((\<lambda>f. parent (path f)) ` set files_data)
     \<and> select_by_total_size g files_data target_size_str True \<noteq> Inl ZeroDivisionError
     \<and> (\<forall>target_bytes. parse_size target_size_str = Inr target_bytes \<longrightarrow>
           (\<exists>selected_files.
              select_by_total_size g files_data target_size_str True = Inr (selected_files, g))))
   \<and> select_by_total_size g [] target_size_str True
       = (case parse_size target_size_str of
            Inl e \<Rightarrow> Inl e
          | Inr target_bytes \<Rightarrow> Inl ZeroDivisionError)
   \<and> after_scan fs g cfg resume_file folder_files []
       = (fs, if \<exists>folder \<in> set (cfg_source_folders cfg). map_of folder_files folder = None
              then Inl KeyError else Inr 0)
   \<and> snd (randomly_select_and_copy_files fs g cfg) \<noteq> Inl ZeroDivisionError"
proof -
  have a: "files_data \<noteq> [] \<longrightarrow>
       1 \<le> length (folder_groups files_data)
     \<and> length (folder_groups files_data) = card ((\<lambda>f. parent (path f)) ` set files_data)
     \<and> select_by_total_size g files_data target_size_str True \<noteq> Inl ZeroDivisionError
     \<and> (\<forall>target_bytes. parse_size target_size_str = Inr target_bytes \<longrightarrow>
           (\<exists>selected_files.
              select_by_total_size g files_data target_size_str True = Inr (selected_files, g)))"
  proof
    assume ne: "files_data \<noteq> []"
    have l: "1 \<le> length (folder_groups files_data)" using ne by (rule folder_groups_nonempty)
    have c: "length (folder_groups files_data) = card ((\<lambda>f. parent (path f)) ` set files_data)"
      by (rule folder_groups_length)
    have z: "select_by_total_size g files_data target_size_str True \<noteq> Inl ZeroDivisionError"
      using select_by_total_size_error[of g files_data target_size_str True ZeroDivisionError] ne
      by auto
    have gne: "folder_groups files_data \<noteq> []" using l by auto
    have s: "\<forall>target_bytes. parse_size target_size_str = Inr target_bytes \<longrightarrow>
           (\<exists>selected_files.
              select_by_total_size g files_data target_size_str True = Inr (selected_files, g))"
      using gne by (simp add: select_by_total_size_def exc_bind_def Let_def)
    from l c z s show "1 \<le> length (folder_groups files_data)
     \<and> length (folder_groups files_data) = card ((\<lambda>f. parent (path f)) ` set files_data)
     \<and> select_by_total_size g files_data target_size_str True \<noteq> Inl ZeroDivisionError
     \<and> (\<forall>target_bytes. parse_size target_size_str = Inr target_bytes \<longrightarrow>
           (\<exists>selected_files.
              select_by_total_size g files_data target_size_str True = Inr (selected_files, g)))"
      by blast
  qed
  have d: "snd (randomly_select_and_copy_files fs g cfg) \<noteq> Inl ZeroDivisionError"
  proof
    assume "snd (randomly_select_and_copy_files fs g cfg) = Inl ZeroDivisionError"
    then have "randomly_select_and_copy_files fs g cfg
        = (fst (randomly_select_and_copy_files fs g cfg), Inl ZeroDivisionError)"
      by (metis prod.collapse)
    from pipeline_error[OF this] show False by simp
  qed
  from a select_empty[of g target_size_str] after_scan_empty[of fs g cfg resume_file folder_files] d
  show ?thesis by blast
qed

text \<open>The theorem at the three entries in two parent folders with target 10, and at the
  run that copies one photo.\<close>

theorem balanced_by_size_divisor_witness:
  "1 \<le> length (folder_groups example_shared_files)
   \<and> select_by_total_size [] example_shared_files ''10'' True \<noteq> Inl ZeroDivisionError
   \<and> select_by_total_size [] [] ''10'' True = Inl ZeroDivisionError
   \<and> snd (randomly_select_and_copy_files example_photo_disk [] example_run)
       \<noteq> Inl ZeroDivisionError"
proof -
  have ne: "example_shared_files \<noteq> []" by (simp add: example_shared_files_def)
  have p: "parse_size ''10'' = Inr 10" by (simp add: py_eval)
  from balanced_by_size_divisor_at_least_one[of example_shared_files "[]" "''10''"
      example_photo_disk example_run None "[]"] ne
  show ?thesis by (simp add: p)
qed

section \<open>Results on the dry run\<close>

lemma map_of_al_update_other: "q \<noteq> k \<Longrightarrow> map_of (al_update k v al) q = map_of al q"
  by (simp add: map_of_al_update)









end
